theory Spec2Isabelle
  imports Complex_Main
begin


section \<open>JavaScript values and completions\<close>

text \<open>
  The sources are JavaScript.  Numbers are IEEE doubles in the program; the model uses
  \<open>real\<close> for them (no claim below depends on rounding), and \<open>int\<close> for blueprint
  versions.  A method call either returns or throws: both completions carry the state
  reached, because a throw does not undo the assignments made before it.
\<close>

datatype 's completion = Normal 's | Abrupt 's

datatype jsval = JUndefined | JNull | JBool bool | JNum real | JStr string | JRef nat

text \<open>
  A nullable string field (\<open>data.mover\<close>, \<open>data.uploader\<close>, \<open>blueprint.script\<close>) is a
  \<open>string option\<close>, \<open>None\<close> standing for \<open>null\<close> or \<open>undefined\<close>.  JavaScript's
  truthiness test \<open>if (s)\<close> also rejects the empty string.
\<close>

definition truthy :: "string option \<Rightarrow> bool" where
  "truthy s = (case s of None \<Rightarrow> False | Some t \<Rightarrow> t \<noteq> [])"

section \<open>Vectors\<close>

datatype vec3 = Vec3 (vx: real) (vy: real) (vz: real)

datatype quat = Quat (qx: real) (qy: real) (qz: real) (qw: real)

definition UP :: vec3 where
  "UP = Vec3 0 1 0"

text \<open>
  Modelled from the spec: \<open>THREE.MathUtils.clamp\<close>, \<open>Vector3.addScalar\<close> and
  \<open>Vector3.clampScalar\<close> come from the three.js re-export \<open>../extras/three\<close>, which
  is not among the sources.  The spec says "scale clamped to [0.1, 10]"; the definitions
  are the library's: \<open>clamp(v, lo, hi) = max(lo, min(hi, v))\<close>, componentwise for
  \<open>clampScalar\<close>, and \<open>addScalar\<close> adds the same number to every component.
\<close>

definition clamp :: "real \<Rightarrow> real \<Rightarrow> real \<Rightarrow> real" where
  "clamp v lo hi = max lo (min hi v)"

definition addScalar :: "vec3 \<Rightarrow> real \<Rightarrow> vec3" where
  "addScalar v s = Vec3 (vx v + s) (vy v + s) (vz v + s)"

definition clampScalar :: "vec3 \<Rightarrow> real \<Rightarrow> real \<Rightarrow> vec3" where
  "clampScalar v lo hi = Vec3 (clamp (vx v) lo hi) (clamp (vy v) lo hi) (clamp (vz v) lo hi)"

section \<open>The world an entity lives in\<close>

text \<open>
  \<open>Blueprint\<close>: an immutable-by-version template.  \<open>bp_model\<close> and \<open>bp_script\<close> are asset
  urls or null.
\<close>

record blueprint =
  bp_id :: string
  bp_version :: int
  bp_model :: "string option"
  bp_script :: "string option"

text \<open>
  A partial entity record as it travels in an \<open>entityModified\<close> packet and as
  \<open>modify(data)\<close> receives it.  \<open>None\<close> means the key is absent
  (\<open>data.hasOwnProperty(k)\<close> is false); for a nullable field the inner option is the value.
\<close>

record entity_update =
  u_id :: string
  u_blueprint :: "string option"
  u_uploader :: "string option option"
  u_mover :: "string option option"
  u_transformMode :: "string option option"
  u_position :: "vec3 option"
  u_quaternion :: "quat option"
  u_scale :: "vec3 option option"
  u_state :: "jsval option"

record chat_msg =
  msg_id :: string
  msg_from :: "string option"
  msg_fromId :: "string option"
  msg_body :: string
  msg_createdAt :: string

datatype packet =
    EntityModified entity_update
  | EntityRemoved string
  | EntityEvent string int string jsval
  | ChatAdded chat_msg

text \<open>
  The parts of \<open>world\<close> that App and PlayerRemote reach: \<open>world.network.id\<close>,
  \<open>world.networkRate\<close>, the blueprint registry, the entity store (\<open>items\<close> and the
  \<open>hot\<close> set, by entity id), the packets handed to \<open>world.network.send\<close>, the lines
  written with \<open>console.error\<close>, the script callbacks that were invoked (callback id and
  the two arguments), the nodes a script placed in the world with \<open>world.add\<close>, the
  listeners registered on \<open>world.events\<close>, the events emitted there, and the chat log.
\<close>

record world =
  w_networkId :: string
  w_networkRate :: real
  w_blueprints :: "string \<rightharpoonup> blueprint"
  w_items :: "string set"
  w_hot :: "string set"
  w_sent :: "packet list"
  w_console :: "string list"
  w_invoked :: "(nat \<times> jsval \<times> jsval) list"
  w_worldActive :: "nat set"
  w_events :: "(string \<times> nat) set"
  w_emitted :: "(string \<times> string) list"
  w_chat :: "chat_msg list"

text \<open>
  Modelled from the spec: \<open>Entities.setHot\<close> and \<open>Entities.remove\<close> belong to the entity
  store, which is not among the sources.  The spec gives the store a primary index
  \<open>id \<rightarrow> entity\<close> and a \<open>hot\<close> set with \<open>setHot(entity, bool)\<close> toggling membership and
  \<open>remove\<close> deleting the entry; \<open>world.setHot\<close> forwards to it.
\<close>

definition setHot :: "string \<Rightarrow> bool \<Rightarrow> world \<Rightarrow> world" where
  "setHot eid hot w = w\<lparr>w_hot := (if hot then insert eid (w_hot w) else w_hot w - {eid})\<rparr>"

definition entities_remove :: "string \<Rightarrow> world \<Rightarrow> world" where
  "entities_remove eid w = w\<lparr>w_items := w_items w - {eid}\<rparr>"

definition network_send :: "packet \<Rightarrow> world \<Rightarrow> world" where
  "network_send p w = w\<lparr>w_sent := w_sent w @ [p]\<rparr>"

definition console_error :: "string \<Rightarrow> world \<Rightarrow> world" where
  "console_error msg w = w\<lparr>w_console := w_console w @ [msg]\<rparr>"

text \<open>
  Modelled from the spec: \<open>world.events\<close> (the Events system) is not among the sources.
  Its reference page says listeners are kept in a Set per name, \<open>off\<close> removes one, and a
  throwing listener does not affect the others; an emission is recorded by event name and
  subject.
\<close>

definition events_on :: "string \<Rightarrow> nat \<Rightarrow> world \<Rightarrow> world" where
  "events_on name cb w = w\<lparr>w_events := insert (name, cb) (w_events w)\<rparr>"

definition events_off :: "string \<Rightarrow> nat \<Rightarrow> world \<Rightarrow> world" where
  "events_off name cb w = w\<lparr>w_events := w_events w - {(name, cb)}\<rparr>"

definition events_emit :: "string \<Rightarrow> string \<Rightarrow> world \<Rightarrow> world" where
  "events_emit name subject w = w\<lparr>w_emitted := w_emitted w @ [(name, subject)]\<rparr>"

text \<open>
  Modelled from the spec: \<open>world.chat\<close> (the Chat system) is not among the sources.
  The spec: "\<open>add(message, broadcast)\<close> appends, evicts older than the last 50, notifies
  subscribers, and (if broadcast) emits to all peers."
\<close>

definition chat_add :: "chat_msg \<Rightarrow> bool \<Rightarrow> world \<Rightarrow> world" where
  "chat_add msg broadcast w =
     (let msgs = w_chat w @ [msg];
          w1 = w\<lparr>w_chat := drop (length msgs - 50) msgs\<rparr>
      in if broadcast then network_send (ChatAdded msg) w1 else w1)"

section \<open>App: data model\<close>

datatype Modes = ACTIVE | MOVING | ROTATING | SCALING | LOADING | CRASHED

text \<open>
  A scene node tree is known by where it came from (\<open>glb.toNodes()\<close> of the asset at a
  url, or the unit box built by \<open>createNode\<close> as loading indicator), its root transform,
  and whether it is activated and with physics.
\<close>

datatype node_src = Glb string | BoxMesh

record node =
  node_src :: node_src
  node_position :: vec3
  node_quaternion :: quat
  node_scale :: vec3
  node_active :: bool
  node_physics :: bool

text \<open>
  User script code is opaque.  A listener callback is known by its identity and by
  whether a call with given arguments throws; \<open>script.exec\<close> is the sequence of calls the
  script makes on the proxies it is handed, possibly ending in a throw.
\<close>

datatype callback = Callback (cb_id: nat) (cb_throws: "jsval \<Rightarrow> jsval \<Rightarrow> bool")

datatype script_op =
    SOn string callback
  | SOff string callback
  | SWorldOn string callback
  | SWorldOff string callback
  | SWorldAdd nat
  | SThrow

record script =
  script_url :: string
  script_ops :: "script_op list"

record event =
  ev_version :: int
  ev_name :: string
  ev_data :: jsval
  ev_networkId :: jsval

record app_data =
  d_id :: string
  d_blueprint :: string
  d_position :: vec3
  d_quaternion :: quat
  d_scale :: "vec3 option"
  d_mover :: "string option"
  d_uploader :: "string option"
  d_transformMode :: "string option"
  d_state :: jsval

text \<open>
  Modelled from the spec: \<open>LerpVector3\<close> and \<open>LerpQuaternion\<close> are not among the sources.
  The spec says each received \<open>entityModified\<close> "enqueues a new target"; an interpolator
  is the value it was created on and the targets pushed since.
\<close>

record 'v lerp =
  lerp_value :: 'v
  lerp_rate :: real
  lerp_targets :: "'v list"

definition new_lerp :: "'v \<Rightarrow> real \<Rightarrow> 'v lerp" where
  "new_lerp v rate = \<lparr>lerp_value = v, lerp_rate = rate, lerp_targets = []\<rparr>"

definition pushArray :: "'v \<Rightarrow> 'v lerp \<Rightarrow> 'v lerp" where
  "pushArray v l = l\<lparr>lerp_targets := lerp_targets l @ [v]\<rparr>"

text \<open>
  The fields of an \<open>App\<close> instance.  A field the constructor does not assign is
  \<open>undefined\<close> until a build sets it: \<open>None\<close> here.  \<open>app_listeners\<close> is the object
  \<open>this.listeners\<close> (event name to the Set of callbacks, in insertion order);
  \<open>app_worldListeners\<close> is the Map from callback to event name; \<open>app_control\<close> holds the
  priority of the control binding, \<open>app_abortController\<close> a live AbortController.
\<close>

record app =
  app_data :: app_data
  app_n :: nat
  app_building :: bool
  app_dead :: bool
  app_mode :: "Modes option"
  app_blueprint :: "blueprint option"
  app_root :: "node option"
  app_script :: "script option"
  app_worldNodes :: "nat list"
  app_hotEvents :: int
  app_worldListeners :: "(callback \<times> string) list"
  app_listeners :: "string \<rightharpoonup> callback list"
  app_eventQueue :: "event list"
  app_control :: "string option"
  app_abortController :: "unit option"
  app_networkPos :: "vec3 lerp option"
  app_networkQuat :: "quat lerp option"
  app_lastMoveSendTime :: "real option"

section \<open>App: listeners and events\<close>

definition hotEventNames :: "string list" where
  "hotEventNames = [''fixedUpdate'', ''update'', ''lateUpdate'']"

text \<open>A JavaScript Set of callbacks, in insertion order; membership is by identity.\<close>

definition set_add :: "callback \<Rightarrow> callback list \<Rightarrow> callback list" where
  "set_add c cs = (if cb_id c \<in> cb_id ` set cs then cs else cs @ [c])"

definition set_delete :: "callback \<Rightarrow> callback list \<Rightarrow> callback list" where
  "set_delete c cs = filter (\<lambda>d. cb_id d \<noteq> cb_id c) cs"

text \<open>A JavaScript Map from callback to event name: \<open>set\<close> on a present key keeps its place.\<close>

definition map_set :: "callback \<Rightarrow> string \<Rightarrow> (callback \<times> string) list \<Rightarrow> (callback \<times> string) list" where
  "map_set c name m =
     (if cb_id c \<in> (cb_id \<circ> fst) ` set m
      then map (\<lambda>(d, v). if cb_id d = cb_id c then (d, name) else (d, v)) m
      else m @ [(c, name)])"

definition map_delete :: "callback \<Rightarrow> (callback \<times> string) list \<Rightarrow> (callback \<times> string) list" where
  "map_delete c m = filter (\<lambda>(d, v). cb_id d \<noteq> cb_id c) m"

text \<open>
  \<open>this.listeners\<close> is a plain object (\<open>{}\<close>), so \<open>this.listeners[name]\<close> finds an own
  property first (\<open>app_listeners\<close>) and otherwise what the name inherits from
  \<open>Object.prototype\<close>.  Those inherited values are truthy and are no Sets: \<open>.add\<close> and
  \<open>.delete\<close> on them are not functions and \<open>for ... of\<close> cannot iterate them, so each of
  \<open>on\<close>, \<open>off\<close> and \<open>emit\<close> throws a TypeError at such a name.
\<close>

definition inherited_names :: "string list" where
  "inherited_names =
     [''constructor'', ''__defineGetter__'', ''__defineSetter__'', ''hasOwnProperty'',
      ''__lookupGetter__'', ''__lookupSetter__'', ''isPrototypeOf'', ''propertyIsEnumerable'',
      ''toString'', ''valueOf'', ''__proto__'', ''toLocaleString'']"

definition on_add :: "string \<Rightarrow> callback \<Rightarrow> callback list \<Rightarrow> app \<Rightarrow> world \<Rightarrow> app \<times> world" where
  "on_add name cb cur a w =
     (let a1 = a\<lparr>app_listeners := (app_listeners a)(name \<mapsto> set_add cb cur)\<rparr>
      in if name \<in> set hotEventNames
         then (a1\<lparr>app_hotEvents := app_hotEvents a1 + 1\<rparr>,
               setHot (d_id (app_data a1)) (app_hotEvents a1 + 1 > 0) w)
         else (a1, w))"

definition on :: "string \<Rightarrow> callback \<Rightarrow> app \<Rightarrow> world \<Rightarrow> (app \<times> world) completion" where
  "on name cb a w =
     (case app_listeners a name of
        Some cs \<Rightarrow> Normal (on_add name cb cs a w)
      | None \<Rightarrow>
          if name \<in> set inherited_names then Abrupt (a, w)
          else Normal (on_add name cb [] a w))"

definition off :: "string \<Rightarrow> callback \<Rightarrow> app \<Rightarrow> world \<Rightarrow> (app \<times> world) completion" where
  "off name cb a w =
     (case app_listeners a name of
        None \<Rightarrow> (if name \<in> set inherited_names then Abrupt (a, w) else Normal (a, w))
      | Some cs \<Rightarrow>
          (let a1 = a\<lparr>app_listeners := (app_listeners a)(name \<mapsto> set_delete cb cs)\<rparr>
           in if name \<in> set hotEventNames
              then Normal (a1\<lparr>app_hotEvents := app_hotEvents a1 - 1\<rparr>,
                           setHot (d_id (app_data a1)) (app_hotEvents a1 - 1 > 0) w)
              else Normal (a1, w)))"

text \<open>
  \<open>for (const callback of this.listeners[name]) callback(a1, a2)\<close>: the callbacks run in
  insertion order; there is no \<open>try\<close> around the call, so the first throw leaves the loop.
\<close>

fun call_all :: "callback list \<Rightarrow> jsval \<Rightarrow> jsval \<Rightarrow> world \<Rightarrow> world completion" where
  "call_all [] a1 a2 w = Normal w"
| "call_all (c # cs) a1 a2 w =
     (let w1 = w\<lparr>w_invoked := w_invoked w @ [(cb_id c, a1, a2)]\<rparr>
      in if cb_throws c a1 a2 then Abrupt w1 else call_all cs a1 a2 w1)"

text \<open>The calls such a loop makes: every callback up to and including the first that throws.\<close>

fun calls_made :: "callback list \<Rightarrow> jsval \<Rightarrow> jsval \<Rightarrow> (nat \<times> jsval \<times> jsval) list" where
  "calls_made [] a1 a2 = []"
| "calls_made (c # cs) a1 a2 =
     (cb_id c, a1, a2) # (if cb_throws c a1 a2 then [] else calls_made cs a1 a2)"

definition emit :: "string \<Rightarrow> jsval \<Rightarrow> jsval \<Rightarrow> app \<Rightarrow> world \<Rightarrow> world completion" where
  "emit name a1 a2 a w =
     (case app_listeners a name of
        Some cs \<Rightarrow> call_all cs a1 a2 w
      | None \<Rightarrow> if name \<in> set inherited_names then Abrupt w else Normal w)"

definition onWorldEvent :: "string \<Rightarrow> callback \<Rightarrow> app \<Rightarrow> world \<Rightarrow> app \<times> world" where
  "onWorldEvent name cb a w =
     (a\<lparr>app_worldListeners := map_set cb name (app_worldListeners a)\<rparr>, events_on name (cb_id cb) w)"

definition offWorldEvent :: "string \<Rightarrow> callback \<Rightarrow> app \<Rightarrow> world \<Rightarrow> app \<times> world" where
  "offWorldEvent name cb a w =
     (a\<lparr>app_worldListeners := map_delete cb (app_worldListeners a)\<rparr>, events_off name (cb_id cb) w)"

definition clearEventListeners :: "app \<Rightarrow> world \<Rightarrow> app \<times> world" where
  "clearEventListeners a w =
     (a\<lparr>app_listeners := Map.empty, app_worldListeners := []\<rparr>,
      fold (\<lambda>(cb, name). events_off name (cb_id cb)) (app_worldListeners a) w)"

definition push_event :: "event \<Rightarrow> app \<Rightarrow> app" where
  "push_event e a = a\<lparr>app_eventQueue := app_eventQueue a @ [e]\<rparr>"

text \<open>
  \<open>onEvent\<close>: \<open>this.building || version > this.blueprint.version\<close> short-circuits, so
  \<open>this.blueprint\<close> is read only when no build is in flight; were it still undefined
  there, the read would throw.
\<close>

definition onEvent :: "int \<Rightarrow> string \<Rightarrow> jsval \<Rightarrow> jsval \<Rightarrow> app \<Rightarrow> world \<Rightarrow> (app \<times> world) completion" where
  "onEvent version name dat networkId a w =
     (let e = \<lparr>ev_version = version, ev_name = name, ev_data = dat, ev_networkId = networkId\<rparr>
      in if app_building a then Normal (push_event e a, w)
         else (case app_blueprint a of
                 None \<Rightarrow> Abrupt (a, w)
               | Some bp \<Rightarrow>
                   if version > bp_version bp then Normal (push_event e a, w)
                   else (case emit name dat networkId a w of
                           Normal w' \<Rightarrow> Normal (a, w')
                         | Abrupt w' \<Rightarrow> Abrupt (a, w'))))"

text \<open>
  The loop at the end of \<open>build\<close>: look at the head of the queue, stop at the first
  event of a future version, otherwise shift it off and emit it.  A throwing listener
  leaves the loop with the event already shifted.  The result is the queue left behind.
\<close>

fun drain :: "int \<Rightarrow> event list \<Rightarrow> app \<Rightarrow> world \<Rightarrow> (event list \<times> world) completion" where
  "drain v [] a w = Normal ([], w)"
| "drain v (e # q) a w =
     (if ev_version e > v then Normal (e # q, w)
      else (case emit (ev_name e) (ev_data e) (ev_networkId e) a w of
              Normal w' \<Rightarrow> drain v q a w'
            | Abrupt w' \<Rightarrow> Abrupt (q, w')))"

section \<open>App: unbuild\<close>

definition unbuild :: "app \<Rightarrow> world \<Rightarrow> app \<times> world" where
  "unbuild a w =
     (let a1 = a\<lparr>app_root := map_option (\<lambda>r. r\<lparr>node_active := False\<rparr>) (app_root a)\<rparr>;
          w1 = w\<lparr>w_worldActive := w_worldActive w - set (app_worldNodes a1)\<rparr>;
          a2 = a1\<lparr>app_worldNodes := []\<rparr>
      in case clearEventListeners a2 w1 of
           (a3, w3) \<Rightarrow>
             (a3\<lparr>app_hotEvents := 0, app_control := None, app_abortController := None\<rparr>,
              setHot (d_id (app_data a3)) False w3))"

section \<open>App: build\<close>

text \<open>
  \<open>build\<close> is an async function.  Its locals (\<open>n\<close>, \<open>blueprint\<close>, \<open>crashed\<close>, \<open>script\<close>,
  \<open>root\<close>) live in a task; at each \<open>await\<close> of the loader the task is suspended and the
  rest of the world runs until the loader answers.  \<open>loader.get\<close> answering at once is the
  run in which the answer is the next thing to happen.  A rejected load is the answer
  \<open>None\<close>.  An uncaught throw rejects the build's promise: \<open>Rejected\<close>.
\<close>

record task =
  t_n :: nat
  t_blueprint :: blueprint
  t_crashed :: bool
  t_script :: "script option"
  t_root :: "node option"

datatype pending = AwaitScript task | AwaitModel string task | AwaitCrashBlock task

datatype build_result = Suspended pending | Finished | Rejected

fun task_of :: "pending \<Rightarrow> task" where
  "task_of (AwaitScript t) = t"
| "task_of (AwaitModel url t) = t"
| "task_of (AwaitCrashBlock t) = t"

text \<open>What a loaded model or avatar asset contributes: the scale of the tree's root.\<close>

record glb =
  glb_scale :: vec3

definition toNodes :: "string \<Rightarrow> glb \<Rightarrow> node" where
  "toNodes url g =
     \<lparr>node_src = Glb url, node_position = Vec3 0 0 0, node_quaternion = Quat 0 0 0 1,
      node_scale = glb_scale g, node_active = False, node_physics = False\<rparr>"

definition loading_box :: node where
  "loading_box =
     \<lparr>node_src = BoxMesh, node_position = Vec3 0 0 0, node_quaternion = Quat 0 0 0 1,
      node_scale = Vec3 1 1 1, node_active = False, node_physics = False\<rparr>"

definition crash_block_url :: string where
  "crash_block_url = ''asset://crash-block.glb''"

text \<open>\<open>this.data.uploader && this.data.uploader !== this.world.network.id\<close>\<close>

definition uploading_elsewhere :: "app_data \<Rightarrow> world \<Rightarrow> bool" where
  "uploading_elsewhere d w = (truthy (d_uploader d) \<and> d_uploader d \<noteq> Some (w_networkId w))"

text \<open>The mode chosen after \<open>unbuild\<close>, from \<open>this.data\<close> and the local network id.\<close>

definition build_mode :: "app_data \<Rightarrow> world \<Rightarrow> Modes" where
  "build_mode d w =
     (let m = (if truthy (d_mover d)
               then (if d_transformMode d = Some ''rotate'' then ROTATING
                     else if d_transformMode d = Some ''scale'' then SCALING
                     else MOVING)
               else ACTIVE)
      in if uploading_elsewhere d w then LOADING else m)"

text \<open>
  The three stretches of \<open>build\<close> before the generation check.  They take the rest of
  the function (\<open>commit\<close>) as an argument, because \<open>commit\<close> may call \<open>crash\<close>, which is
  \<open>build(true)\<close> again.
\<close>

definition build_after_model ::
  "(task \<Rightarrow> app \<Rightarrow> world \<Rightarrow> build_result \<times> app \<times> world) \<Rightarrow> task \<Rightarrow> app \<Rightarrow> world \<Rightarrow> build_result \<times> app \<times> world" where
  "build_after_model commit t a w =
     (if t_crashed t \<or> t_root t = None then (Suspended (AwaitCrashBlock t), a, w)
      else commit t a w)"

definition build_after_script ::
  "(task \<Rightarrow> app \<Rightarrow> world \<Rightarrow> build_result \<times> app \<times> world) \<Rightarrow> task \<Rightarrow> app \<Rightarrow> world \<Rightarrow> build_result \<times> app \<times> world" where
  "build_after_script commit t a w =
     (if uploading_elsewhere (app_data a) w
      then build_after_model commit (t\<lparr>t_root := Some loading_box\<rparr>) a w
      else (case bp_model (t_blueprint t) of
              None \<Rightarrow> build_after_model commit t a (console_error ''TypeError'' w)
            | Some url \<Rightarrow> (Suspended (AwaitModel url t), a, w)))"

definition build_begin ::
  "(task \<Rightarrow> app \<Rightarrow> world \<Rightarrow> build_result \<times> app \<times> world) \<Rightarrow> bool \<Rightarrow> app \<Rightarrow> world \<Rightarrow> build_result \<times> app \<times> world" where
  "build_begin commit crashed a w =
     (let a1 = a\<lparr>app_building := True, app_n := app_n a + 1\<rparr>
      in case w_blueprints w (d_blueprint (app_data a1)) of
           None \<Rightarrow> (Rejected, a1, w)
         | Some bp \<Rightarrow>
             (let t = \<lparr>t_n = app_n a1, t_blueprint = bp, t_crashed = crashed,
                       t_script = None, t_root = None\<rparr>
              in if truthy (bp_script bp) then (Suspended (AwaitScript t), a1, w)
                 else build_after_script commit t a1 w))"

text \<open>
  \<open>crash() { this.build(true) }\<close>.  With \<open>crashed = true\<close> the build always waits for
  the crash block before the generation check, so the rest of the function is not reached
  in the same turn (see \<open>crash_is_build_true\<close>).
\<close>

definition crash :: "app \<Rightarrow> world \<Rightarrow> build_result \<times> app \<times> world" where
  "crash a w = build_begin (\<lambda>t a w. (Rejected, a, w)) True a w"

text \<open>
  \<open>this.script.exec(worldProxy, appProxy, fetch)\<close>: the proxy calls the script makes.  A
  proxy call that throws ends the script like a throw of its own.
\<close>

fun exec :: "script_op list \<Rightarrow> app \<Rightarrow> world \<Rightarrow> (app \<times> world) completion" where
  "exec [] a w = Normal (a, w)"
| "exec (SThrow # ops) a w = Abrupt (a, w)"
| "exec (SOn name cb # ops) a w =
     (case on name cb a w of Normal (a', w') \<Rightarrow> exec ops a' w' | Abrupt (a', w') \<Rightarrow> Abrupt (a', w'))"
| "exec (SOff name cb # ops) a w =
     (case off name cb a w of Normal (a', w') \<Rightarrow> exec ops a' w' | Abrupt (a', w') \<Rightarrow> Abrupt (a', w'))"
| "exec (SWorldOn name cb # ops) a w = (case onWorldEvent name cb a w of (a', w') \<Rightarrow> exec ops a' w')"
| "exec (SWorldOff name cb # ops) a w = (case offWorldEvent name cb a w of (a', w') \<Rightarrow> exec ops a' w')"
| "exec (SWorldAdd k # ops) a w =
     exec ops (a\<lparr>app_worldNodes := List.insert k (app_worldNodes a)\<rparr>)
              (w\<lparr>w_worldActive := insert k (w_worldActive w)\<rparr>)"

text \<open>From "if transforming we need updates" to "finished!".\<close>

definition build_finish :: "task \<Rightarrow> node \<Rightarrow> app \<Rightarrow> world \<Rightarrow> build_result \<times> app \<times> world" where
  "build_finish t r a w =
     (let w1 = (if app_mode a \<in> {Some MOVING, Some ROTATING, Some SCALING}
                then setHot (d_id (app_data a)) True w else w);
          a1 = (if d_mover (app_data a) = Some (w_networkId w)
                then a\<lparr>app_lastMoveSendTime := Some 0, app_control := Some ''ENTITY''\<rparr> else a);
          a2 = a1\<lparr>app_networkPos := Some (new_lerp (node_position r) (w_networkRate w)),
                   app_networkQuat := Some (new_lerp (node_quaternion r) (w_networkRate w))\<rparr>
      in case drain (bp_version (t_blueprint t)) (app_eventQueue a2) a2 w1 of
           Abrupt (q, w2) \<Rightarrow> (Rejected, a2\<lparr>app_eventQueue := q\<rparr>, w2)
         | Normal (q, w2) \<Rightarrow> (Finished, a2\<lparr>app_eventQueue := q, app_building := False\<rparr>, w2))"

text \<open>
  From the generation check on: "if a new build happened while we were fetching, stop
  here", then unbuild, mode, setup, activate, execute script, and the rest.
\<close>

definition build_commit :: "task \<Rightarrow> app \<Rightarrow> world \<Rightarrow> build_result \<times> app \<times> world" where
  "build_commit t a w =
     (if app_n a \<noteq> t_n t then (Finished, a, w)
      else case unbuild a w of
        (a1, w1) \<Rightarrow>
          (let d = app_data a1;
               a2 = a1\<lparr>app_mode := Some (build_mode d w1), app_blueprint := Some (t_blueprint t)\<rparr>
           in case t_root t of
                None \<Rightarrow> (Rejected, a2\<lparr>app_root := None\<rparr>, w1)
              | Some r \<Rightarrow>
                  (let r1 = r\<lparr>node_position := d_position d, node_quaternion := d_quaternion d,
                              node_scale := (case d_scale d of None \<Rightarrow> node_scale r | Some s \<Rightarrow> s),
                              node_active := True, node_physics := \<not> truthy (d_mover d)\<rparr>;
                       a3 = a2\<lparr>app_root := Some r1\<rparr>
                   in case t_script t of
                        Some s \<Rightarrow>
                          if build_mode d w1 = ACTIVE \<and> \<not> t_crashed t
                          then (case exec (script_ops s)
                                       (a3\<lparr>app_abortController := Some (), app_script := Some s\<rparr>) w1 of
                                  Abrupt (a4, w4) \<Rightarrow>
                                    crash a4 (console_error ''err'' (console_error ''script crashed'' w4))
                                | Normal (a4, w4) \<Rightarrow> build_finish t r1 a4 w4)
                          else build_finish t r1 a3 w1
                      | None \<Rightarrow> build_finish t r1 a3 w1)))"

definition build :: "bool \<Rightarrow> app \<Rightarrow> world \<Rightarrow> build_result \<times> app \<times> world" where
  "build crashed a w = build_begin build_commit crashed a w"

text \<open>The loader's answers to the three awaits.\<close>

definition resume_script :: "task \<Rightarrow> script option \<Rightarrow> app \<Rightarrow> world \<Rightarrow> build_result \<times> app \<times> world" where
  "resume_script t res a w =
     (case res of
        None \<Rightarrow> build_after_script build_commit (t\<lparr>t_crashed := True\<rparr>) a (console_error ''err'' w)
      | Some s \<Rightarrow> build_after_script build_commit (t\<lparr>t_script := Some s\<rparr>) a w)"

definition resume_model :: "string \<Rightarrow> task \<Rightarrow> glb option \<Rightarrow> app \<Rightarrow> world \<Rightarrow> build_result \<times> app \<times> world" where
  "resume_model url t res a w =
     (case res of
        None \<Rightarrow> build_after_model build_commit t a (console_error ''err'' w)
      | Some g \<Rightarrow> build_after_model build_commit (t\<lparr>t_root := Some (toNodes url g)\<rparr>) a w)"

definition resume_crash_block :: "task \<Rightarrow> glb option \<Rightarrow> app \<Rightarrow> world \<Rightarrow> build_result \<times> app \<times> world" where
  "resume_crash_block t res a w =
     (case res of
        None \<Rightarrow> (Rejected, a, w)
      | Some g \<Rightarrow> build_commit (t\<lparr>t_root := Some (toNodes crash_block_url g)\<rparr>) a w)"

section \<open>App: the other methods\<close>

definition App_init :: "app_data \<Rightarrow> app" where
  "App_init d =
     \<lparr>app_data = d, app_n = 0, app_building = False, app_dead = False, app_mode = None,
      app_blueprint = None, app_root = None, app_script = None, app_worldNodes = [],
      app_hotEvents = 0, app_worldListeners = [], app_listeners = Map.empty,
      app_eventQueue = [], app_control = None, app_abortController = None,
      app_networkPos = None, app_networkQuat = None, app_lastMoveSendTime = None\<rparr>"

text \<open>The constructor: assign the fields, then \<open>this.build()\<close>.\<close>

definition new_App :: "app_data \<Rightarrow> world \<Rightarrow> build_result \<times> app \<times> world" where
  "new_App d w = build False (App_init d) w"

text \<open>
  \<open>fixedUpdate(delta)\<close>: the \<open>try\<close> is around the whole \<open>emit\<close>; a throw is logged and
  answered with \<open>crash()\<close>.  The result says whether a crash build was started.
\<close>

definition App_fixedUpdate :: "real \<Rightarrow> app \<Rightarrow> world \<Rightarrow> build_result option \<times> app \<times> world" where
  "App_fixedUpdate delta a w =
     (if app_mode a = Some ACTIVE \<and> app_script a \<noteq> None
      then (case emit ''fixedUpdate'' (JNum delta) JUndefined a w of
              Normal w' \<Rightarrow> (None, a, w')
            | Abrupt w' \<Rightarrow>
                (case crash a (console_error ''err'' (console_error ''script fixedUpdate crashed'' w')) of
                   (r, a', w'') \<Rightarrow> (Some r, a', w'')))
      else (None, a, w))"

text \<open>What a frame reads from the controls: \<open>buttons.ShiftLeft\<close> and \<open>pointer.delta\<close>.\<close>

record controls =
  ctl_ShiftLeft :: bool
  ctl_pointer_dx :: real
  ctl_pointer_dy :: real

text \<open>
  \<open>handleScale(delta)\<close> reads \<open>this.control.buttons\<close> first and then works on
  \<open>this.root.scale\<close>; either being undefined is a TypeError.
\<close>

definition handleScale :: "controls \<Rightarrow> real \<Rightarrow> app \<Rightarrow> app completion" where
  "handleScale c delta a =
     (case app_control a of
        None \<Rightarrow> Abrupt a
      | Some b \<Rightarrow>
         (case app_root a of
            None \<Rightarrow> Abrupt a
          | Some r \<Rightarrow>
             (let scaleSpeed = 1.0;
                  s = node_scale r;
                  s' = (if ctl_ShiftLeft c
                        then clampScalar (addScalar s (- ctl_pointer_dy c * delta * scaleSpeed)) 0.1 10
                        else Vec3 (clamp (vx s + ctl_pointer_dx c * delta * scaleSpeed) 0.1 10)
                                  (clamp (vy s + - ctl_pointer_dy c * delta * scaleSpeed) 0.1 10)
                                  (vz s))
              in Normal (a\<lparr>app_root := Some (r\<lparr>node_scale := s'\<rparr>)\<rparr>))))"

text \<open>
  \<open>modify(data)\<close>.  The keys are handled in the source's order.  \<open>this.networkPos\<close> and
  \<open>this.networkQuat\<close> are assigned near the end of \<open>build\<close> only; pushing to one that is
  still undefined throws, after the assignments made so far and before \<open>build\<close> is reached.
\<close>

definition modify_keys :: "entity_update \<Rightarrow> app_data \<Rightarrow> app_data" where
  "modify_keys u d =
     (let d1 = (case u_blueprint u of None \<Rightarrow> d | Some b \<Rightarrow> d\<lparr>d_blueprint := b\<rparr>);
          d2 = (case u_uploader u of None \<Rightarrow> d1 | Some v \<Rightarrow> d1\<lparr>d_uploader := v\<rparr>);
          d3 = (case u_mover u of None \<Rightarrow> d2 | Some v \<Rightarrow> d2\<lparr>d_mover := v\<rparr>)
      in (case u_transformMode u of None \<Rightarrow> d3 | Some v \<Rightarrow> d3\<lparr>d_transformMode := v\<rparr>))"

definition modify_position :: "entity_update \<Rightarrow> app \<Rightarrow> app completion" where
  "modify_position u a =
     (case u_position u of
        None \<Rightarrow> Normal a
      | Some p \<Rightarrow>
          (let a1 = a\<lparr>app_data := (app_data a)\<lparr>d_position := p\<rparr>\<rparr>
           in case app_networkPos a1 of
                None \<Rightarrow> Abrupt a1
              | Some l \<Rightarrow> Normal (a1\<lparr>app_networkPos := Some (pushArray p l)\<rparr>)))"

definition modify_quaternion :: "entity_update \<Rightarrow> app \<Rightarrow> app completion" where
  "modify_quaternion u a =
     (case u_quaternion u of
        None \<Rightarrow> Normal a
      | Some q \<Rightarrow>
          (let a1 = a\<lparr>app_data := (app_data a)\<lparr>d_quaternion := q\<rparr>\<rparr>
           in case app_networkQuat a1 of
                None \<Rightarrow> Abrupt a1
              | Some l \<Rightarrow> Normal (a1\<lparr>app_networkQuat := Some (pushArray q l)\<rparr>)))"

definition modify_rest :: "entity_update \<Rightarrow> app_data \<Rightarrow> app_data" where
  "modify_rest u d =
     (let d1 = (case u_scale u of None \<Rightarrow> d | Some s \<Rightarrow> d\<lparr>d_scale := s\<rparr>)
      in (case u_state u of None \<Rightarrow> d1 | Some v \<Rightarrow> d1\<lparr>d_state := v\<rparr>))"

definition wants_rebuild :: "entity_update \<Rightarrow> bool" where
  "wants_rebuild u =
     (\<not> (u_blueprint u = None \<and> u_uploader u = None \<and> u_mover u = None \<and>
         u_transformMode u = None \<and> u_state u = None))"

definition App_modify ::
  "entity_update \<Rightarrow> app \<Rightarrow> world \<Rightarrow> (build_result option \<times> app \<times> world) completion" where
  "App_modify u a w =
     (case modify_position u (a\<lparr>app_data := modify_keys u (app_data a)\<rparr>) of
        Abrupt a1 \<Rightarrow> Abrupt (None, a1, w)
      | Normal a1 \<Rightarrow>
         (case modify_quaternion u a1 of
            Abrupt a2 \<Rightarrow> Abrupt (None, a2, w)
          | Normal a2 \<Rightarrow>
             (let a3 = a2\<lparr>app_data := modify_rest u (app_data a2)\<rparr>
              in if wants_rebuild u
                 then (case build False a3 w of (r, a4, w4) \<Rightarrow> Normal (Some r, a4, w4))
                 else Normal (None, a3, w))))"

text \<open>\<open>move()\<close>, \<open>rotate()\<close> and \<open>scale()\<close> differ in the transform mode only.\<close>

definition start_transform :: "string \<Rightarrow> app \<Rightarrow> world \<Rightarrow> build_result \<times> app \<times> world" where
  "start_transform tm a w =
     (let d = (app_data a)\<lparr>d_mover := Some (w_networkId w), d_transformMode := Some tm\<rparr>
      in case build False (a\<lparr>app_data := d\<rparr>) w of
           (r, a1, w1) \<Rightarrow>
             (r, a1, network_send (EntityModified
                        \<lparr>u_id = d_id (app_data a1), u_blueprint = None, u_uploader = None,
                         u_mover = Some (d_mover (app_data a1)),
                         u_transformMode = Some (d_transformMode (app_data a1)),
                         u_position = None, u_quaternion = None, u_scale = None, u_state = None\<rparr>) w1))"

definition App_move :: "app \<Rightarrow> world \<Rightarrow> build_result \<times> app \<times> world" where
  "App_move = start_transform ''move''"

definition App_rotate :: "app \<Rightarrow> world \<Rightarrow> build_result \<times> app \<times> world" where
  "App_rotate = start_transform ''rotate''"

definition App_scale :: "app \<Rightarrow> world \<Rightarrow> build_result \<times> app \<times> world" where
  "App_scale = start_transform ''scale''"

definition App_destroy :: "bool \<Rightarrow> app \<Rightarrow> world \<Rightarrow> app \<times> world" where
  "App_destroy local a w =
     (if app_dead a then (a, w)
      else case unbuild (a\<lparr>app_dead := True\<rparr>) w of
        (a1, w1) \<Rightarrow>
          (let w2 = entities_remove (d_id (app_data a1)) w1
           in (a1, if local then network_send (EntityRemoved (d_id (app_data a1))) w2 else w2)))"

section \<open>Overlapping builds\<close>

text \<open>
  One app, its world, and the builds of it that wait on the loader.  An action is
  something the event loop does next: the loader answers the build of generation \<open>g\<close>
  that waits for it, or a caller runs one of the methods that start a build, or the
  world around the app changes (the blueprint registry, the data record).
\<close>

record sys =
  sys_app :: app
  sys_world :: world
  sys_pending :: "pending list"

datatype action =
    ScriptLoaded nat "script option"
  | ModelLoaded nat "glb option"
  | CrashBlockLoaded nat "glb option"
  | CallBuild bool
  | Modify entity_update
  | StartTransform string
  | OnEvent int string jsval jsval
  | FixedUpdate real
  | SetBlueprints "string \<rightharpoonup> blueprint"
  | SetData app_data

definition generation :: "pending \<Rightarrow> nat" where
  "generation p = t_n (task_of p)"

definition settle :: "pending list \<Rightarrow> build_result \<times> app \<times> world \<Rightarrow> sys" where
  "settle ps res =
     (case res of
        (Suspended p, a, w) \<Rightarrow> \<lparr>sys_app = a, sys_world = w, sys_pending = ps @ [p]\<rparr>
      | (other, a, w) \<Rightarrow> \<lparr>sys_app = a, sys_world = w, sys_pending = ps\<rparr>)"

text \<open>The loader's answer to a waiting build; an answer nobody waits for changes nothing.\<close>

definition resume :: "pending \<Rightarrow> action \<Rightarrow> app \<Rightarrow> world \<Rightarrow> (build_result \<times> app \<times> world) option" where
  "resume p act a w =
     (case (p, act) of
        (AwaitScript t, ScriptLoaded g res) \<Rightarrow>
          if t_n t = g then Some (resume_script t res a w) else None
      | (AwaitModel url t, ModelLoaded g res) \<Rightarrow>
          if t_n t = g then Some (resume_model url t res a w) else None
      | (AwaitCrashBlock t, CrashBlockLoaded g res) \<Rightarrow>
          if t_n t = g then Some (resume_crash_block t res a w) else None
      | other \<Rightarrow> None)"

fun deliver :: "pending list \<Rightarrow> pending list \<Rightarrow> action \<Rightarrow> sys \<Rightarrow> sys" where
  "deliver seen [] act s = s"
| "deliver seen (p # ps) act s =
     (case resume p act (sys_app s) (sys_world s) of
        Some res \<Rightarrow> settle (seen @ ps) res
      | None \<Rightarrow> deliver (seen @ [p]) ps act s)"

definition is_load :: "action \<Rightarrow> bool" where
  "is_load act =
     (case act of ScriptLoaded g r \<Rightarrow> True | ModelLoaded g r \<Rightarrow> True
      | CrashBlockLoaded g r \<Rightarrow> True | other \<Rightarrow> False)"

definition step :: "action \<Rightarrow> sys \<Rightarrow> sys" where
  "step act s =
     (let a = sys_app s; w = sys_world s; ps = sys_pending s
      in case act of
           CallBuild crashed \<Rightarrow> settle ps (build crashed a w)
         | Modify u \<Rightarrow>
             (case App_modify u a w of
                Normal (Some r, a', w') \<Rightarrow> settle ps (r, a', w')
              | Normal (None, a', w') \<Rightarrow> s\<lparr>sys_app := a', sys_world := w'\<rparr>
              | Abrupt (r, a', w') \<Rightarrow> s\<lparr>sys_app := a', sys_world := w'\<rparr>)
         | StartTransform tm \<Rightarrow> settle ps (start_transform tm a w)
         | OnEvent v name dat nid \<Rightarrow>
             (case onEvent v name dat nid a w of
                Normal (a', w') \<Rightarrow> s\<lparr>sys_app := a', sys_world := w'\<rparr>
              | Abrupt (a', w') \<Rightarrow> s\<lparr>sys_app := a', sys_world := w'\<rparr>)
         | FixedUpdate delta \<Rightarrow>
             (case App_fixedUpdate delta a w of
                (Some r, a', w') \<Rightarrow> settle ps (r, a', w')
              | (None, a', w') \<Rightarrow> s\<lparr>sys_app := a', sys_world := w'\<rparr>)
         | SetBlueprints reg \<Rightarrow> s\<lparr>sys_world := w\<lparr>w_blueprints := reg\<rparr>\<rparr>
         | SetData d \<Rightarrow> s\<lparr>sys_app := a\<lparr>app_data := d\<rparr>\<rparr>
         | load \<Rightarrow> deliver [] ps act s)"

fun run :: "action list \<Rightarrow> sys \<Rightarrow> sys" where
  "run [] s = s"
| "run (act # acts) s = run acts (step act s)"

text \<open>The system right after \<open>new App(world, data)\<close>.\<close>

definition boot :: "app_data \<Rightarrow> world \<Rightarrow> sys" where
  "boot d w = settle [] (new_App d w)"

text \<open>The world except for what was written to the console.\<close>

definition silent :: "world \<Rightarrow> world" where
  "silent w = w\<lparr>w_console := []\<rparr>"

section \<open>ClientNetwork: the packet queue\<close>

text \<open>
  \<open>readPacket\<close> (from \<open>../packets\<close>) and the handler methods' effects on the world are
  parameters.  \<open>rd\<close> decodes a frame into method name and data, or throws (\<open>None\<close>).
  \<open>H m\<close> is what \<open>this[m]\<close> finds: nothing (\<open>undefined\<close> or \<open>null\<close>, where \<open>?.\<close> skips the
  call), a value that is no function (\<open>ids\<close>, \<open>queue\<close>, \<open>isClient\<close>: calling it is a
  TypeError), or a method, as a function on \<open>'w\<close> that returns or throws.  \<open>'w\<close> stands for
  all that the handlers of the class reach, the world and the fields \<open>id\<close> and
  \<open>serverTimeOffset\<close>; none of them reaches the queue.  \<open>cn_dispatched\<close> lists the handler
  calls made, in order, and \<open>cn_errors\<close> counts the \<open>console.error\<close> calls of \<open>flush\<close>.
\<close>

datatype ('d, 'w) js_member = Missing | Plain | Handler "'d \<Rightarrow> 'w \<Rightarrow> 'w completion"

record ('d, 'w) client_network =
  cn_queue :: "(string \<times> 'd) list"
  cn_world :: 'w
  cn_dispatched :: "(string \<times> 'd) list"
  cn_errors :: nat

definition enqueue :: "string \<Rightarrow> 'd \<Rightarrow> ('d, 'w) client_network \<Rightarrow> ('d, 'w) client_network" where
  "enqueue method dat c = c\<lparr>cn_queue := cn_queue c @ [(method, dat)]\<rparr>"

definition onPacket ::
  "('f \<Rightarrow> (string \<times> 'd) option) \<Rightarrow> 'f \<Rightarrow> ('d, 'w) client_network \<Rightarrow> ('d, 'w) client_network completion" where
  "onPacket rd frame c =
     (case rd frame of
        None \<Rightarrow> Abrupt c
      | Some (method, dat) \<Rightarrow> Normal (enqueue method dat c))"

text \<open>
  \<open>while (this.queue.length) { try { [method, data] = this.queue.shift();
  this[method]?.(data) } catch (err) { console.error(err) } }\<close>.  The handlers do not
  reach the queue, so the loop runs once over the packets queued when it starts.
\<close>

fun flush_loop ::
  "(string \<Rightarrow> ('d, 'w) js_member) \<Rightarrow> (string \<times> 'd) list \<Rightarrow>
   ('d, 'w) client_network \<Rightarrow> ('d, 'w) client_network" where
  "flush_loop H [] c = c\<lparr>cn_queue := []\<rparr>"
| "flush_loop H ((method, dat) # q) c =
     (case H method of
        Missing \<Rightarrow> flush_loop H q (c\<lparr>cn_queue := q\<rparr>)
      | Plain \<Rightarrow> flush_loop H q (c\<lparr>cn_queue := q, cn_errors := cn_errors c + 1\<rparr>)
      | Handler h \<Rightarrow>
          (case h dat (cn_world c) of
             Normal w' \<Rightarrow>
               flush_loop H q
                 (c\<lparr>cn_queue := q, cn_world := w', cn_dispatched := cn_dispatched c @ [(method, dat)]\<rparr>)
           | Abrupt w' \<Rightarrow>
               flush_loop H q
                 (c\<lparr>cn_queue := q, cn_world := w', cn_dispatched := cn_dispatched c @ [(method, dat)],
                    cn_errors := cn_errors c + 1\<rparr>)))"

definition flush ::
  "(string \<Rightarrow> ('d, 'w) js_member) \<Rightarrow> ('d, 'w) client_network \<Rightarrow> ('d, 'w) client_network" where
  "flush H c = flush_loop H (cn_queue c) c"

definition preFixedUpdate ::
  "(string \<Rightarrow> ('d, 'w) js_member) \<Rightarrow> ('d, 'w) client_network \<Rightarrow> ('d, 'w) client_network" where
  "preFixedUpdate H c = flush H c"

text \<open>The packets of a queue whose method is a function: the calls a flush has to make.\<close>

fun is_handler :: "('d, 'w) js_member \<Rightarrow> bool" where
  "is_handler (Handler h) = True"
| "is_handler other = False"

definition handled :: "(string \<Rightarrow> ('d, 'w) js_member) \<Rightarrow> (string \<times> 'd) list \<Rightarrow> (string \<times> 'd) list" where
  "handled H q = filter (\<lambda>p. is_handler (H (fst p))) q"

text \<open>
  The claim's reading of a flush, one packet at a time: the packet's handler, if there is
  one, runs on the world that the packets before it left, and a throw is reported and
  does not stop the packets behind it.  The state is the world and the count of errors
  reported.
\<close>

definition spec_dispatch ::
  "(string \<Rightarrow> ('d, 'w) js_member) \<Rightarrow> 'w \<times> nat \<Rightarrow> string \<times> 'd \<Rightarrow> 'w \<times> nat" where
  "spec_dispatch H s p =
     (case H (fst p) of
        Missing \<Rightarrow> s
      | Plain \<Rightarrow> (fst s, snd s + 1)
      | Handler h \<Rightarrow>
          (case h (snd p) (fst s) of
             Normal w' \<Rightarrow> (w', snd s)
           | Abrupt w' \<Rightarrow> (w', snd s + 1)))"

definition spec_drain ::
  "(string \<Rightarrow> ('d, 'w) js_member) \<Rightarrow> 'w \<times> nat \<Rightarrow> (string \<times> 'd) list \<Rightarrow> 'w \<times> nat" where
  "spec_drain H s q = foldl (spec_dispatch H) s q"

text \<open>
  Modelled from the spec: the tick loop, which calls the hooks of the systems frame by
  frame, is not among the sources.  By the spec a frame runs four phases in order,
  \<open>fixedUpdate\<close> (repeated), \<open>update\<close>, \<open>lateUpdate\<close> and \<open>postLateUpdate\<close>, and inbound
  packets are drained into the world between frames, never within a phase; the hook by
  which \<open>ClientNetwork\<close> takes part is \<open>preFixedUpdate\<close>, at the head of the frame.  The
  client's run is a sequence of steps: a socket message that arrives (\<open>onPacket\<close>, whose
  throw on a frame that does not decode ends that callback only), the head of a frame, or
  one phase of a frame, which acts on the world as \<open>P\<close> says and makes no call of the
  network system.  Messages may stand anywhere in the sequence.
\<close>

datatype phase = PhFixedUpdate | PhUpdate | PhLateUpdate | PhPostLateUpdate

datatype 'f tick_step = Message 'f | FrameHead | Phase phase

fun client_step ::
  "('f \<Rightarrow> (string \<times> 'd) option) \<Rightarrow> (string \<Rightarrow> ('d, 'w) js_member) \<Rightarrow> (phase \<Rightarrow> 'w \<Rightarrow> 'w) \<Rightarrow>
   ('d, 'w) client_network \<Rightarrow> 'f tick_step \<Rightarrow> ('d, 'w) client_network" where
  "client_step rd H P c (Message f) = (case onPacket rd f c of Normal c' \<Rightarrow> c' | Abrupt c' \<Rightarrow> c')"
| "client_step rd H P c FrameHead = preFixedUpdate H c"
| "client_step rd H P c (Phase p) = c\<lparr>cn_world := P p (cn_world c)\<rparr>"

definition client_run ::
  "('f \<Rightarrow> (string \<times> 'd) option) \<Rightarrow> (string \<Rightarrow> ('d, 'w) js_member) \<Rightarrow> (phase \<Rightarrow> 'w \<Rightarrow> 'w) \<Rightarrow>
   'f tick_step list \<Rightarrow> ('d, 'w) client_network \<Rightarrow> ('d, 'w) client_network" where
  "client_run rd H P steps c = foldl (client_step rd H P) c steps"

text \<open>One frame of the spec with \<open>k\<close> fixed steps.\<close>

definition frame_steps :: "nat \<Rightarrow> 'f tick_step list" where
  "frame_steps k =
     FrameHead # replicate k (Phase PhFixedUpdate) @
     [Phase PhUpdate, Phase PhLateUpdate, Phase PhPostLateUpdate]"

text \<open>The packets that the messages of a run decode to, in arrival order.\<close>

fun arrived :: "('f \<Rightarrow> (string \<times> 'd) option) \<Rightarrow> 'f tick_step list \<Rightarrow> (string \<times> 'd) list" where
  "arrived rd [] = []"
| "arrived rd (Message f # steps) =
     (case rd f of None \<Rightarrow> arrived rd steps | Some p \<Rightarrow> p # arrived rd steps)"
| "arrived rd (other # steps) = arrived rd steps"

text \<open>The phases of a run, in order, and their effect on the world.\<close>

fun phases_of :: "'f tick_step list \<Rightarrow> phase list" where
  "phases_of [] = []"
| "phases_of (Phase p # steps) = p # phases_of steps"
| "phases_of (other # steps) = phases_of steps"

definition run_phases :: "(phase \<Rightarrow> 'w \<Rightarrow> 'w) \<Rightarrow> phase list \<Rightarrow> 'w \<Rightarrow> 'w" where
  "run_phases P ps w = foldl (\<lambda>w p. P p w) w ps"

section \<open>PlayerLocal: the physics step\<close>

text \<open>
  Vector arithmetic of three.js as the step uses it (\<open>dot\<close>, \<open>multiplyScalar\<close>, \<open>sub\<close>,
  \<open>add\<close>, \<open>angleTo\<close>); three.js is not among the sources.  \<open>angleTo\<close> is the arc cosine of
  the clamped normalised dot product, and a right angle when a vector has length zero.
\<close>

definition dot :: "vec3 \<Rightarrow> vec3 \<Rightarrow> real" where
  "dot a b = vx a * vx b + vy a * vy b + vz a * vz b"

definition multiplyScalar :: "vec3 \<Rightarrow> real \<Rightarrow> vec3" where
  "multiplyScalar v s = Vec3 (vx v * s) (vy v * s) (vz v * s)"

definition vsub :: "vec3 \<Rightarrow> vec3 \<Rightarrow> vec3" where
  "vsub a b = Vec3 (vx a - vx b) (vy a - vy b) (vz a - vz b)"

definition vadd :: "vec3 \<Rightarrow> vec3 \<Rightarrow> vec3" where
  "vadd a b = Vec3 (vx a + vx b) (vy a + vy b) (vz a + vz b)"

definition angleTo :: "vec3 \<Rightarrow> vec3 \<Rightarrow> real" where
  "angleTo a b =
     (let denominator = sqrt (dot a a * dot b b)
      in if denominator = 0 then pi / 2
         else arccos (clamp (dot a b / denominator) (- 1) 1))"

definition RAD2DEG :: real where
  "RAD2DEG = 180 / pi"

text \<open>
  The controller state that \<open>fixedUpdate\<close> reads and writes.  \<open>pl_velocity\<close> is the
  capsule's linear velocity, \<open>pl_forces\<close> the forces added to the capsule and
  \<open>pl_platformForces\<close> those added to the platform actor, \<open>pl_materialMax\<close> the combine
  mode flag (\<open>None\<close> until first set).  The capsule pose and the avatar's orientation,
  which the platform block moves by the physics library's matrix arithmetic, are not
  part of the model; the block's bookkeeping of \<open>platform.actor\<close> is.
\<close>

record player_local =
  pl_mass :: real
  pl_effectiveGravity :: real
  pl_jumpHeight :: real
  pl_grounded :: bool
  pl_groundAngle :: real
  pl_groundNormal :: vec3
  pl_slipping :: bool
  pl_jumped :: bool
  pl_jumping :: bool
  pl_justLeftGround :: bool
  pl_fallTimer :: real
  pl_falling :: bool
  pl_moveDir :: vec3
  pl_moving :: bool
  pl_running :: bool
  pl_platformActor :: "nat option"
  pl_materialMax :: "bool option"
  pl_velocity :: vec3
  pl_forces :: "vec3 list"
  pl_platformForces :: "(nat \<times> vec3) list"

text \<open>
  What the physics scene and the controls answer during one step: the handled actor
  under the player (\<open>raycast\<close>), the normal of the ground sweep's hit, whether the platform
  actor is a dynamic body, the slope rotation applied to the move direction, and
  whether Space is down.
\<close>

record step_input =
  in_raycastActor :: "nat option"
  in_sweepNormal :: "vec3 option"
  in_platformDynamic :: bool
  in_slopeRotate :: "vec3 \<Rightarrow> vec3 \<Rightarrow> vec3"
  in_Space :: bool

definition track_platform :: "step_input \<Rightarrow> player_local \<Rightarrow> player_local" where
  "track_platform i p =
     (if pl_grounded p then p\<lparr>pl_platformActor := in_raycastActor i\<rparr>
      else p\<lparr>pl_platformActor := None\<rparr>)"

definition update_grounded :: "step_input \<Rightarrow> player_local \<Rightarrow> player_local" where
  "update_grounded i p =
     (case in_sweepNormal i of
        Some nrm \<Rightarrow>
          p\<lparr>pl_justLeftGround := False, pl_grounded := True, pl_groundNormal := nrm,
            pl_groundAngle := angleTo UP nrm * RAD2DEG\<rparr>
      | None \<Rightarrow>
          p\<lparr>pl_justLeftGround := pl_grounded p, pl_grounded := False, pl_groundNormal := UP,
            pl_groundAngle := 0\<rparr>)"

definition steep_slope :: "player_local \<Rightarrow> player_local" where
  "steep_slope p =
     (if pl_grounded p \<and> pl_groundAngle p > 60
      then p\<lparr>pl_justLeftGround := False, pl_grounded := False, pl_groundNormal := UP,
             pl_groundAngle := 0, pl_slipping := True\<rparr>
      else p\<lparr>pl_slipping := False\<rparr>)"

definition swap_material :: "player_local \<Rightarrow> player_local" where
  "swap_material p = p\<lparr>pl_materialMax := Some (pl_grounded p)\<rparr>"

definition jump_fall :: "real \<Rightarrow> player_local \<Rightarrow> player_local" where
  "jump_fall delta p =
     (let p1 = (if pl_jumped p \<and> \<not> pl_grounded p then p\<lparr>pl_jumped := False, pl_jumping := True\<rparr> else p);
          p2 = (if \<not> pl_grounded p1 \<and> vy (pl_velocity p1) < 0
                then p1\<lparr>pl_fallTimer := pl_fallTimer p1 + delta\<rparr> else p1\<lparr>pl_fallTimer := 0\<rparr>);
          p3 = (if pl_fallTimer p2 > 0.1 then p2\<lparr>pl_jumping := False, pl_falling := True\<rparr> else p2);
          p4 = (if pl_falling p3 \<and> pl_grounded p3 then p3\<lparr>pl_falling := False\<rparr> else p3)
      in if pl_jumping p4 \<and> pl_grounded p4 then p4\<lparr>pl_jumping := False\<rparr> else p4)"

definition apply_gravity :: "step_input \<Rightarrow> player_local \<Rightarrow> player_local" where
  "apply_gravity i p =
     (if pl_grounded p
      then (case pl_platformActor p of
              Some actor \<Rightarrow>
                if in_platformDynamic i
                then p\<lparr>pl_platformForces := pl_platformForces p @ [(actor, Vec3 0 (- 9.81 * 0.2) 0)]\<rparr>
                else p
            | None \<Rightarrow> p)
      else p\<lparr>pl_forces := pl_forces p @ [Vec3 0 (- pl_effectiveGravity p) 0]\<rparr>)"

definition shape_velocity :: "real \<Rightarrow> player_local \<Rightarrow> player_local" where
  "shape_velocity delta p =
     (let velocity = pl_velocity p;
          dragCoeff = 10 * delta;
          perpComponent = multiplyScalar (pl_groundNormal p) (dot velocity (pl_groundNormal p));
          parallelComponent = multiplyScalar (vsub velocity perpComponent) (1 - dragCoeff);
          v1 = vadd parallelComponent perpComponent;
          v2 = (if pl_grounded p \<and> \<not> pl_jumping p
                then vsub v1 (multiplyScalar (pl_groundNormal p) (dot v1 (pl_groundNormal p)))
                else v1);
          v3 = (if pl_justLeftGround p \<and> \<not> pl_jumping p then Vec3 (vx v2) (- 5) (vz v2) else v2);
          v4 = (if pl_slipping p then Vec3 (vx v3) (vy v3 - 0.5) (vz v3) else v3)
      in p\<lparr>pl_velocity := v4\<rparr>)"

definition move_force :: "step_input \<Rightarrow> player_local \<Rightarrow> player_local" where
  "move_force i p =
     (if pl_moving p
      then (let moveSpeed = (if pl_running p then 8 else 4) * pl_mass p
            in p\<lparr>pl_forces := pl_forces p @
                  [in_slopeRotate i (pl_groundNormal p) (multiplyScalar (pl_moveDir p) (moveSpeed * 10))]\<rparr>)
      else p)"

definition apply_jump :: "step_input \<Rightarrow> player_local \<Rightarrow> player_local" where
  "apply_jump i p =
     (if pl_grounded p \<and> \<not> pl_jumping p \<and> in_Space i
      then (let jumpVelocity = sqrt (2 * pl_effectiveGravity p * pl_jumpHeight p) * (1 / sqrt (pl_mass p))
            in p\<lparr>pl_velocity := Vec3 (vx (pl_velocity p)) jumpVelocity (vz (pl_velocity p)),
                 pl_jumped := True\<rparr>)
      else p)"

definition PlayerLocal_fixedUpdate :: "step_input \<Rightarrow> real \<Rightarrow> player_local \<Rightarrow> player_local" where
  "PlayerLocal_fixedUpdate i delta p =
     apply_jump i (move_force i (shape_velocity delta (apply_gravity i (jump_fall delta
       (swap_material (steep_slope (update_grounded i (track_platform i p))))))))"

section \<open>ClientEditor: dropping a file\<close>

record jsfile =
  file_name :: string
  file_size :: nat

text \<open>
  The first entry of \<open>e.dataTransfer.items\<close>: its \<open>kind\<close>, and what \<open>getAsFile()\<close>
  returns.  \<open>dt_items = None\<close> stands for a missing \<open>items\<close> list.
\<close>

record transfer_item =
  item_kind :: string
  item_file :: "jsfile option"

record data_transfer =
  dt_items :: "transfer_item list option"
  dt_files :: "jsfile list"

text \<open>
  Modelled from the spec: \<open>hasRole\<close> comes from \<open>../utils\<close>, which is not among the
  sources; the spec speaks of role checks ("admin/builder"), and the call
  \<open>hasRole(roles, 'admin', 'builder')\<close> asks whether the user has one of them.
\<close>

definition hasRole :: "string list \<Rightarrow> string list \<Rightarrow> bool" where
  "hasRole roles wanted = (\<exists>r \<in> set wanted. r \<in> set roles)"

text \<open>Decimal digits of a number, as a template literal prints it.\<close>

definition digit :: "nat \<Rightarrow> char" where
  "digit k = ''0123456789'' ! k"

function show_nat :: "nat \<Rightarrow> string" where
  "show_nat k = (if k < 10 then [digit k] else show_nat (k div 10) @ [digit (k mod 10)])"
  by pat_completeness auto
termination
  by (relation "measure id") auto

declare show_nat.simps [simp del]

definition show_int :: "int \<Rightarrow> string" where
  "show_int k = (if k < 0 then CHR ''-'' # show_nat (nat (- k)) else show_nat (nat k))"

text \<open>\<open>file.name.split('.').pop().toLowerCase()\<close>, on ASCII names.\<close>

fun last_segment :: "string \<Rightarrow> string \<Rightarrow> string" where
  "last_segment acc [] = acc"
| "last_segment acc (c # cs) = (if c = CHR ''.'' then last_segment [] cs else last_segment (acc @ [c]) cs)"

definition toLowerCase :: "string \<Rightarrow> string" where
  "toLowerCase s =
     map (\<lambda>c. case map_of (zip ''ABCDEFGHIJKLMNOPQRSTUVWXYZ'' ''abcdefghijklmnopqrstuvwxyz'') c of
                 Some l \<Rightarrow> l
               | None \<Rightarrow> c) s"

definition extension :: "string \<Rightarrow> string" where
  "extension name = toLowerCase (last_segment [] name)"

text \<open>
  What the drop handler is given besides the event: the local player's roles, the parsed
  \<open>MAX_UPLOAD_SIZE\<close> (\<open>parseInt\<close> of the environment variable or of '100'; \<open>None\<close> is
  NaN), and the fresh id and timestamp for a chat message.
\<close>

record drop_env =
  env_roles :: "string list"
  env_MAX_UPLOAD_SIZE :: "int option"
  env_uuid :: string
  env_now :: string

text \<open>
  The async methods \<open>onDrop\<close> may start; they alone add blueprints and entities.  The
  handler's first two statements (\<open>e.preventDefault()\<close>, \<open>this.dropping = false\<close>) touch
  the DOM event and an editor flag, which the model leaves out.
\<close>

datatype started = AddModel jsfile | AddAvatar jsfile

definition dropped_file :: "data_transfer \<Rightarrow> jsfile option" where
  "dropped_file dt =
     (case dt_items dt of
        Some (item # rest) \<Rightarrow> (if item_kind item = ''file'' then item_file item else None)
      | other \<Rightarrow> (case dt_files dt of f # rest \<Rightarrow> Some f | [] \<Rightarrow> None))"

definition too_large :: "drop_env \<Rightarrow> jsfile \<Rightarrow> bool" where
  "too_large env f =
     (case env_MAX_UPLOAD_SIZE env of
        None \<Rightarrow> False
      | Some m \<Rightarrow> int (file_size f) > m * 1024 * 1024)"

definition size_notice :: "drop_env \<Rightarrow> chat_msg" where
  "size_notice env =
     \<lparr>msg_id = env_uuid env, msg_from = None, msg_fromId = None,
      msg_body = ''File size too large (>'' @
                 (case env_MAX_UPLOAD_SIZE env of None \<Rightarrow> ''NaN'' | Some m \<Rightarrow> show_int m) @ ''mb)'',
      msg_createdAt = env_now env\<rparr>"

definition onDrop :: "drop_env \<Rightarrow> data_transfer \<Rightarrow> world \<Rightarrow> started list \<times> world" where
  "onDrop env dt w =
     (if \<not> hasRole (env_roles env) [''admin'', ''builder''] then ([], w)
      else case dropped_file dt of
        None \<Rightarrow> ([], w)
      | Some f \<Rightarrow>
          if too_large env f
          then ([], console_error ''File too large'' (chat_add (size_notice env) False w))
          else (let ext = extension (file_name f)
                in ((if ext = ''glb'' then [AddModel f] else []) @
                    (if ext = ''vrm'' then [AddAvatar f] else []), w)))"

section \<open>PlayerRemote: destroy\<close>

record player_remote =
  pr_id :: string
  pr_dead :: bool
  pr_chatTimer :: bool
  pr_baseActive :: bool
  pr_avatar :: "string option"

definition PlayerRemote_destroy :: "bool \<Rightarrow> player_remote \<Rightarrow> world \<Rightarrow> player_remote \<times> world" where
  "PlayerRemote_destroy local p w =
     (if pr_dead p then (p, w)
      else (let p1 = p\<lparr>pr_dead := True, pr_chatTimer := False, pr_baseActive := False, pr_avatar := None\<rparr>;
                w1 = setHot (pr_id p1) False w;
                w2 = events_emit ''leave'' (pr_id p1) w1;
                w3 = entities_remove (pr_id p1) w2
            in (p1, if local then network_send (EntityRemoved (pr_id p1)) w3 else w3)))"

section \<open>The claims' own words, and example inputs\<close>

text \<open>
  The mode as the specification words it: mover equal to the local network id gives
  MOVING, ROTATING or SCALING by transform mode; otherwise an uploader that is set and
  is not the local id gives LOADING; otherwise ACTIVE.
\<close>

definition claimed_mode :: "app_data \<Rightarrow> world \<Rightarrow> Modes" where
  "claimed_mode d w =
     (if d_mover d = Some (w_networkId w)
      then (if d_transformMode d = Some ''rotate'' then ROTATING
            else if d_transformMode d = Some ''scale'' then SCALING
            else MOVING)
      else if uploading_elsewhere d w then LOADING
      else ACTIVE)"

definition in_range :: "real \<Rightarrow> bool" where
  "in_range v = (0.1 \<le> v \<and> v \<le> 10)"

definition ex_bp :: blueprint where
  "ex_bp = \<lparr>bp_id = ''bp1'', bp_version = 1, bp_model = Some ''asset://m.glb'', bp_script = None\<rparr>"

definition ex_world :: world where
  "ex_world =
     \<lparr>w_networkId = ''me'', w_networkRate = 1 / 8, w_blueprints = [''bp1'' \<mapsto> ex_bp],
      w_items = {''app1''}, w_hot = {}, w_sent = [], w_console = [], w_invoked = [],
      w_worldActive = {}, w_events = {}, w_emitted = [], w_chat = []\<rparr>"

definition ex_data :: app_data where
  "ex_data =
     \<lparr>d_id = ''app1'', d_blueprint = ''bp1'', d_position = Vec3 0 0 0,
      d_quaternion = Quat 0 0 0 1, d_scale = None, d_mover = None, d_uploader = None,
      d_transformMode = None, d_state = JNull\<rparr>"

definition ex_glb :: glb where
  "ex_glb = \<lparr>glb_scale = Vec3 1 1 1\<rparr>"

text \<open>The app built from \<open>d\<close> in world \<open>w\<close>, once its model has loaded.\<close>

definition ex_built :: "app_data \<Rightarrow> world \<Rightarrow> build_result \<times> app \<times> world" where
  "ex_built d w =
     (case new_App d w of
        (Suspended (AwaitModel url t), a, w') \<Rightarrow> resume_model url t (Some ex_glb) a w'
      | other \<Rightarrow> other)"

definition ex_scaling_data :: app_data where
  "ex_scaling_data =
     ex_data\<lparr>d_scale := Some (Vec3 1 1 20), d_mover := Some ''me'', d_transformMode := Some ''scale''\<rparr>"

definition ex_still :: controls where
  "ex_still = \<lparr>ctl_ShiftLeft = False, ctl_pointer_dx = 0, ctl_pointer_dy = 0\<rparr>"

definition ex_shift_drag :: controls where
  "ex_shift_drag = \<lparr>ctl_ShiftLeft = True, ctl_pointer_dx = 0, ctl_pointer_dy = - 100\<rparr>"

definition ex_moved_by_other :: app_data where
  "ex_moved_by_other = ex_data\<lparr>d_mover := Some ''other''\<rparr>"

section \<open>What a script's proxy calls leave alone\<close>

text \<open>
  \<open>script.exec\<close> and the listener calls reach the app through \<open>on\<close>, \<open>off\<close>,
  \<open>world.on\<close>, \<open>world.off\<close> and \<open>world.add\<close> only.  These predicates name the fields of
  the app and of the world that such calls do not write.
\<close>

definition script_untouched :: "app \<Rightarrow> app \<Rightarrow> bool" where
  "script_untouched a a' =
     (app_data a' = app_data a \<and> app_n a' = app_n a \<and> app_building a' = app_building a \<and>
      app_dead a' = app_dead a \<and> app_mode a' = app_mode a \<and> app_blueprint a' = app_blueprint a \<and>
      app_root a' = app_root a \<and> app_script a' = app_script a \<and>
      app_eventQueue a' = app_eventQueue a \<and> app_control a' = app_control a \<and>
      app_abortController a' = app_abortController a \<and> app_networkPos a' = app_networkPos a \<and>
      app_networkQuat a' = app_networkQuat a \<and> app_lastMoveSendTime a' = app_lastMoveSendTime a)"

definition world_untouched :: "world \<Rightarrow> world \<Rightarrow> bool" where
  "world_untouched w w' =
     (w_networkId w' = w_networkId w \<and> w_networkRate w' = w_networkRate w \<and>
      w_blueprints w' = w_blueprints w \<and> w_items w' = w_items w \<and> w_sent w' = w_sent w \<and>
      w_console w' = w_console w \<and> w_invoked w' = w_invoked w \<and> w_emitted w' = w_emitted w \<and>
      w_chat w' = w_chat w)"

definition ex_task :: task where
  "ex_task =
     \<lparr>t_n = 1, t_blueprint = ex_bp, t_crashed = False, t_script = None,
      t_root = Some (toNodes ''asset://m.glb'' ex_glb)\<rparr>"

definition ex_app :: "app_data \<Rightarrow> app" where
  "ex_app d = (App_init d)\<lparr>app_building := True, app_n := 1\<rparr>"

section \<open>What an event does to the listeners\<close>

text \<open>
  The listener calls that emitting event \<open>e\<close> on app \<open>a\<close> makes, and whether the emit
  throws: a listener does, or the name has no listeners of its own and is inherited from
  \<open>Object.prototype\<close>.
\<close>

definition event_calls :: "app \<Rightarrow> event \<Rightarrow> (nat \<times> jsval \<times> jsval) list" where
  "event_calls a e =
     (case app_listeners a (ev_name e) of
        None \<Rightarrow> []
      | Some cs \<Rightarrow> calls_made cs (ev_data e) (ev_networkId e))"

definition event_throws :: "app \<Rightarrow> event \<Rightarrow> bool" where
  "event_throws a e =
     (case app_listeners a (ev_name e) of
        None \<Rightarrow> ev_name e \<in> set inherited_names
      | Some cs \<Rightarrow> \<exists>c \<in> set cs. cb_throws c (ev_data e) (ev_networkId e))"

text \<open>An event belongs to the current or an older version of the blueprint.\<close>

definition due :: "int \<Rightarrow> event \<Rightarrow> bool" where
  "due v e = (ev_version e \<le> v)"

text \<open>A script with two \<open>fixedUpdate\<close> listeners, the first of which throws, and a \<open>tick\<close> listener.\<close>

definition ex_script :: script where
  "ex_script =
     \<lparr>script_url = ''asset://s.js'',
      script_ops = [SOn ''fixedUpdate'' (Callback 1 (\<lambda>a1 a2. True)),
                    SOn ''fixedUpdate'' (Callback 2 (\<lambda>a1 a2. False)),
                    SOn ''tick'' (Callback 7 (\<lambda>a1 a2. False))]\<rparr>"

definition ex_scripted_world :: world where
  "ex_scripted_world =
     ex_world\<lparr>w_blueprints := [''bp1'' \<mapsto> ex_bp\<lparr>bp_script := Some ''asset://s.js''\<rparr>]\<rparr>"

text \<open>
  The app built from \<open>ex_data\<close> with that script: the script loads, then the model.
  \<open>evs\<close> are events that arrive, as \<open>(version, name)\<close>, while the script is being fetched.
\<close>

fun ex_events :: "(int \<times> string) list \<Rightarrow> app \<Rightarrow> world \<Rightarrow> app \<times> world" where
  "ex_events [] a w = (a, w)"
| "ex_events ((v, name) # evs) a w =
     (case onEvent v name JNull JUndefined a w of
        Normal (a', w') \<Rightarrow> ex_events evs a' w'
      | Abrupt (a', w') \<Rightarrow> (a', w'))"

definition ex_scripted :: "(int \<times> string) list \<Rightarrow> build_result \<times> app \<times> world" where
  "ex_scripted evs =
     (case new_App ex_data ex_scripted_world of
        (Suspended (AwaitScript t), a, w) \<Rightarrow>
          (case ex_events evs a w of
             (a0, w0) \<Rightarrow>
               (case resume_script t (Some ex_script) a0 w0 of
                  (Suspended (AwaitModel url t'), a', w') \<Rightarrow> resume_model url t' (Some ex_glb) a' w'
                | other \<Rightarrow> other))
      | other \<Rightarrow> other)"



definition ex_remote :: player_remote where
  "ex_remote =
     \<lparr>pr_id = ''player2'', pr_dead = False, pr_chatTimer = True, pr_baseActive = True,
      pr_avatar = Some ''asset://avatar.vrm''\<rparr>"

definition ex_remote_world :: world where
  "ex_remote_world = ex_world\<lparr>w_items := {''app1'', ''player2''}, w_hot := {''player2''}\<rparr>"

text \<open>
  The packet with which a mover places an app: \<open>mover\<close> and \<open>transformMode\<close> cleared, the
  final transform, and the state.
\<close>

definition ex_commit :: entity_update where
  "ex_commit =
     \<lparr>u_id = ''app1'', u_blueprint = None, u_uploader = None, u_mover = Some None,
      u_transformMode = Some None, u_position = Some (Vec3 1 2 3),
      u_quaternion = Some (Quat 0 1 0 0), u_scale = Some None, u_state = Some JNull\<rparr>"

definition ex_transform_only :: entity_update where
  "ex_transform_only =
     \<lparr>u_id = ''app1'', u_blueprint = None, u_uploader = None, u_mover = None,
      u_transformMode = None, u_position = Some (Vec3 1 2 3),
      u_quaternion = Some (Quat 0 1 0 0), u_scale = None, u_state = None\<rparr>"

text \<open>
  A client whose world is a list of the packets applied, with a handler for
  \<open>onEntityAdded\<close>, one for \<open>onEntityModified\<close> that throws on the payload 13 after it has
  written 0, and the field \<open>ids\<close>, which is a number; and a decoder that fails on frame 0.
\<close>

definition ex_handlers :: "string \<Rightarrow> (nat, nat list) js_member" where
  "ex_handlers m =
     (if m = ''onEntityAdded'' then Handler (\<lambda>d w. Normal (w @ [d]))
      else if m = ''onEntityModified''
        then Handler (\<lambda>d w. if d = 13 then Abrupt (w @ [0]) else Normal (w @ [d]))
      else if m = ''ids'' then Plain
      else Missing)"

definition ex_client :: "(nat, nat list) client_network" where
  "ex_client =
     \<lparr>cn_queue = [(''onEntityAdded'', 1), (''onEntityModified'', 13), (''onPong'', 5),
                  (''ids'', 9), (''onEntityModified'', 2)],
      cn_world = [], cn_dispatched = [], cn_errors = 0\<rparr>"

definition ex_rd :: "nat \<Rightarrow> (string \<times> nat) option" where
  "ex_rd f = (if f = 0 then None else Some (''onEntityAdded'', f))"

definition ex_player :: player_local where
  "ex_player =
     \<lparr>pl_mass = 1, pl_effectiveGravity = 20, pl_jumpHeight = 1.5, pl_grounded = True,
      pl_groundAngle = 0, pl_groundNormal = UP, pl_slipping = False, pl_jumped = False,
      pl_jumping = False, pl_justLeftGround = False, pl_fallTimer = 0, pl_falling = False,
      pl_moveDir = Vec3 0 0 (- 1), pl_moving = True, pl_running = False,
      pl_platformActor = None, pl_materialMax = None, pl_velocity = Vec3 1 2 0,
      pl_forces = [], pl_platformForces = []\<rparr>"

text \<open>A step in which the ground sweep hits a vertical wall face (normal along x).\<close>

definition ex_wall :: step_input where
  "ex_wall =
     \<lparr>in_raycastActor = None, in_sweepNormal = Some (Vec3 1 0 0), in_platformDynamic = False,
      in_slopeRotate = (\<lambda>nrm v. v), in_Space = True\<rparr>"

definition ex_drop_env :: drop_env where
  "ex_drop_env =
     \<lparr>env_roles = [''builder''], env_MAX_UPLOAD_SIZE = Some 100, env_uuid = ''m1'',
      env_now = ''2025-01-01T00:00:00.000Z''\<rparr>"

definition ex_big_file :: jsfile where
  "ex_big_file = \<lparr>file_name = ''castle.GLB'', file_size = 200 * 1024 * 1024\<rparr>"

definition ex_drop :: "jsfile \<Rightarrow> data_transfer" where
  "ex_drop f = \<lparr>dt_items = Some [\<lparr>item_kind = ''file'', item_file = Some f\<rparr>], dt_files = []\<rparr>"

text \<open>The ground flags of the controller, taken together.\<close>

definition flags :: "player_local \<Rightarrow> bool \<times> bool \<times> vec3 \<times> real \<times> bool" where
  "flags p = (pl_grounded p, pl_slipping p, pl_groundNormal p, pl_groundAngle p, pl_justLeftGround p)"

section \<open>Generations of the builds in flight\<close>

text \<open>
  No build in flight is newer than the counter \<open>this.n\<close>, and no two builds in flight
  share a generation.
\<close>

definition builds_ordered :: "sys \<Rightarrow> bool" where
  "builds_ordered s =
     ((\<forall>p \<in> set (sys_pending s). generation p \<le> app_n (sys_app s)) \<and>
      distinct (map generation (sys_pending s)))"

text \<open>Every build in flight has been superseded: the newest build has settled.\<close>

definition all_superseded :: "sys \<Rightarrow> bool" where
  "all_superseded s = (\<forall>p \<in> set (sys_pending s). generation p \<noteq> app_n (sys_app s))"

text \<open>
  The root that a build makes for a blueprint: the tree of the blueprint's model, or the
  loading box shown while another client uploads the model, or the crash block.
\<close>

definition root_matches :: "blueprint \<Rightarrow> node \<Rightarrow> bool" where
  "root_matches bp r =
     (node_src r = BoxMesh \<or> node_src r = Glb crash_block_url \<or>
      Some (node_src r) = map_option Glb (bp_model bp))"

text \<open>The app shows blueprint \<open>bp\<close>: it is the current blueprint and its root is active.\<close>

definition installed :: "blueprint \<Rightarrow> app \<Rightarrow> bool" where
  "installed bp a =
     (app_blueprint a = Some bp \<and>
      (case app_root a of None \<Rightarrow> False | Some r \<Rightarrow> node_active r \<and> root_matches bp r))"

text \<open>
  What a build in flight holds while it waits: no root before the model has been asked
  for, and the model asked for is the blueprint's.
\<close>

fun pending_wf :: "pending \<Rightarrow> bool" where
  "pending_wf (AwaitScript t) = (t_root t = None)"
| "pending_wf (AwaitModel url t) = (t_root t = None \<and> bp_model (t_blueprint t) = Some url)"
| "pending_wf (AwaitCrashBlock t) = True"

definition builds_wf :: "sys \<Rightarrow> bool" where
  "builds_wf s = list_all pending_wf (sys_pending s)"

text \<open>
  Rebuild supersession: an app built from blueprint \<open>bp1\<close> is switched to \<open>B1\<close> and at
  once to \<open>B2\<close>, before the model of \<open>B1\<close> has loaded.
\<close>

definition ex_two_world :: world where
  "ex_two_world =
     ex_world\<lparr>w_blueprints :=
        [''bp1'' \<mapsto> ex_bp,
         ''B1'' \<mapsto> \<lparr>bp_id = ''B1'', bp_version = 0, bp_model = Some ''asset://b1.glb'', bp_script = None\<rparr>,
         ''B2'' \<mapsto> \<lparr>bp_id = ''B2'', bp_version = 0, bp_model = Some ''asset://b2.glb'', bp_script = None\<rparr>]\<rparr>"

definition ex_switch :: "string \<Rightarrow> entity_update" where
  "ex_switch b =
     \<lparr>u_id = ''app1'', u_blueprint = Some b, u_uploader = None, u_mover = None,
      u_transformMode = None, u_position = None, u_quaternion = None, u_scale = None,
      u_state = None\<rparr>"

definition ex_overlap :: "action list" where
  "ex_overlap = [ModelLoaded 1 (Some ex_glb), Modify (ex_switch ''B1''), Modify (ex_switch ''B2'')]"

text \<open>
  The build of \<open>B2\<close> as it waits for its model after \<open>ex_overlap\<close>, and the run in which
  that load and then the load of the crash block fail.
\<close>

definition ex_b2 :: blueprint where
  "ex_b2 = \<lparr>bp_id = ''B2'', bp_version = 0, bp_model = Some ''asset://b2.glb'', bp_script = None\<rparr>"

definition ex_newest :: pending where
  "ex_newest =
     AwaitModel ''asset://b2.glb''
       \<lparr>t_n = 3, t_blueprint = ex_b2, t_crashed = False, t_script = None, t_root = None\<rparr>"

definition ex_failed :: sys where
  "ex_failed =
     run (ex_overlap @ [ModelLoaded 3 None, CrashBlockLoaded 3 None, ModelLoaded 2 (Some ex_glb)])
       (boot ex_data ex_two_world)"

section \<open>Lemmas about the model\<close>

lemma Diff_single_Diff: "A - {a} - B = A - insert a B"
  by blast

lemma fold_events_off:
  "fold (\<lambda>(cb, name). events_off name (cb_id cb)) xs w =
     w\<lparr>w_events := w_events w - set (map (\<lambda>(cb, name). (name, cb_id cb)) xs)\<rparr>"
  by (induction xs arbitrary: w) (auto simp: events_off_def Diff_single_Diff)

lemma unbuild_eq:
  "unbuild a w =
     (a\<lparr>app_root := map_option (\<lambda>r. r\<lparr>node_active := False\<rparr>) (app_root a),
        app_worldNodes := [], app_listeners := Map.empty, app_worldListeners := [],
        app_hotEvents := 0, app_control := None, app_abortController := None\<rparr>,
      w\<lparr>w_worldActive := w_worldActive w - set (app_worldNodes a),
        w_events := w_events w - set (map (\<lambda>(cb, name). (name, cb_id cb)) (app_worldListeners a)),
        w_hot := w_hot w - {d_id (app_data a)}\<rparr>)"
  by (simp add: unbuild_def clearEventListeners_def fold_events_off setHot_def Let_def)

lemma call_all_eq:
  "call_all cs a1 a2 w =
     (if \<exists>c \<in> set cs. cb_throws c a1 a2
      then Abrupt (w\<lparr>w_invoked := w_invoked w @ calls_made cs a1 a2\<rparr>)
      else Normal (w\<lparr>w_invoked := w_invoked w @ calls_made cs a1 a2\<rparr>))"
  by (induction cs arbitrary: w) (simp_all add: Let_def)

lemma emit_frame:
  "\<exists>xs. emit name a1 a2 a w = Normal (w\<lparr>w_invoked := w_invoked w @ xs\<rparr>) \<or>
        emit name a1 a2 a w = Abrupt (w\<lparr>w_invoked := w_invoked w @ xs\<rparr>)"
proof (cases "app_listeners a name")
  case None
  then have "emit name a1 a2 a w = Normal (w\<lparr>w_invoked := w_invoked w @ []\<rparr>) \<or>
             emit name a1 a2 a w = Abrupt (w\<lparr>w_invoked := w_invoked w @ []\<rparr>)"
    by (simp add: emit_def)
  then show ?thesis by blast
next
  case (Some cs)
  then have "emit name a1 a2 a w = call_all cs a1 a2 w" by (simp add: emit_def)
  then show ?thesis unfolding call_all_eq by (cases "\<exists>c \<in> set cs. cb_throws c a1 a2") auto
qed

lemma drain_frame:
  "\<exists>q' xs. drain v q a w = Normal (q', w\<lparr>w_invoked := w_invoked w @ xs\<rparr>) \<or>
           drain v q a w = Abrupt (q', w\<lparr>w_invoked := w_invoked w @ xs\<rparr>)"
proof (induction q arbitrary: w)
  case Nil
  have "drain v [] a w = Normal ([], w\<lparr>w_invoked := w_invoked w @ []\<rparr>)" by simp
  then show ?case by blast
next
  case (Cons e q)
  show ?case
  proof (cases "ev_version e > v")
    case True
    then have "drain v (e # q) a w = Normal (e # q, w\<lparr>w_invoked := w_invoked w @ []\<rparr>)" by simp
    then show ?thesis by blast
  next
    case False
    obtain xs where xs:
      "emit (ev_name e) (ev_data e) (ev_networkId e) a w = Normal (w\<lparr>w_invoked := w_invoked w @ xs\<rparr>) \<or>
       emit (ev_name e) (ev_data e) (ev_networkId e) a w = Abrupt (w\<lparr>w_invoked := w_invoked w @ xs\<rparr>)"
      using emit_frame by blast
    let ?w1 = "w\<lparr>w_invoked := w_invoked w @ xs\<rparr>"
    from xs show ?thesis
    proof
      assume n: "emit (ev_name e) (ev_data e) (ev_networkId e) a w = Normal ?w1"
      obtain q' ys where
        "drain v q a ?w1 = Normal (q', ?w1\<lparr>w_invoked := w_invoked ?w1 @ ys\<rparr>) \<or>
         drain v q a ?w1 = Abrupt (q', ?w1\<lparr>w_invoked := w_invoked ?w1 @ ys\<rparr>)"
        using Cons.IH[of ?w1] by blast
      then have
        "drain v (e # q) a w = Normal (q', w\<lparr>w_invoked := w_invoked w @ (xs @ ys)\<rparr>) \<or>
         drain v (e # q) a w = Abrupt (q', w\<lparr>w_invoked := w_invoked w @ (xs @ ys)\<rparr>)"
        using False n by simp
      then show ?thesis by blast
    next
      assume "emit (ev_name e) (ev_data e) (ev_networkId e) a w = Abrupt ?w1"
      then have "drain v (e # q) a w = Abrupt (q, ?w1)" using False by simp
      then show ?thesis by blast
    qed
  qed
qed


lemma script_untouched_refl: "script_untouched a a"
  by (simp add: script_untouched_def)

lemma script_untouched_trans:
  "script_untouched a b \<Longrightarrow> script_untouched b c \<Longrightarrow> script_untouched a c"
  by (simp add: script_untouched_def)

lemma world_untouched_refl: "world_untouched w w"
  by (simp add: world_untouched_def)

lemma world_untouched_trans:
  "world_untouched a b \<Longrightarrow> world_untouched b c \<Longrightarrow> world_untouched a c"
  by (simp add: world_untouched_def)

lemma on_add_untouched:
  "on_add name cb cur a w = (a', w') \<Longrightarrow> script_untouched a a' \<and> world_untouched w w'"
  by (auto simp: on_add_def Let_def setHot_def script_untouched_def world_untouched_def split: if_splits)

lemma on_untouched:
  "on name cb a w = Normal (a', w') \<or> on name cb a w = Abrupt (a', w') \<Longrightarrow>
   script_untouched a a' \<and> world_untouched w w'"
  using on_add_untouched[of name cb _ a w a' w']
  by (auto simp: on_def script_untouched_def world_untouched_def split: option.splits if_splits)

lemma off_untouched:
  "off name cb a w = Normal (a', w') \<or> off name cb a w = Abrupt (a', w') \<Longrightarrow>
   script_untouched a a' \<and> world_untouched w w'"
  by (auto simp: off_def Let_def setHot_def script_untouched_def world_untouched_def
      split: if_splits option.splits)

lemma onWorldEvent_untouched:
  "onWorldEvent name cb a w = (a', w') \<Longrightarrow> script_untouched a a' \<and> world_untouched w w'"
  by (auto simp: onWorldEvent_def events_on_def script_untouched_def world_untouched_def)

lemma offWorldEvent_untouched:
  "offWorldEvent name cb a w = (a', w') \<Longrightarrow> script_untouched a a' \<and> world_untouched w w'"
  by (auto simp: offWorldEvent_def events_off_def script_untouched_def world_untouched_def)

lemma exec_untouched:
  "exec ops a w = Normal (a', w') \<or> exec ops a w = Abrupt (a', w') \<Longrightarrow>
   script_untouched a a' \<and> world_untouched w w'"
proof (induction ops a w rule: exec.induct)
  case (1 a w)
  then show ?case by (auto simp: script_untouched_refl world_untouched_refl)
next
  case (2 ops a w)
  then show ?case by (auto simp: script_untouched_refl world_untouched_refl)
next
  case (3 name cb ops a w)
  show ?case
  proof (cases "on name cb a w")
    case (Normal pr)
    obtain a1 w1 where pr: "pr = (a1, w1)" by (cases pr)
    from 3 Normal pr have "script_untouched a1 a' \<and> world_untouched w1 w'" by simp
    moreover from on_untouched[of name cb a w a1 w1] Normal pr
    have "script_untouched a a1 \<and> world_untouched w w1" by simp
    ultimately show ?thesis using script_untouched_trans world_untouched_trans by blast
  next
    case (Abrupt pr)
    obtain a1 w1 where pr: "pr = (a1, w1)" by (cases pr)
    from "3.prems" Abrupt pr have "a' = a1" "w' = w1" by simp_all
    with on_untouched[of name cb a w a1 w1] Abrupt pr show ?thesis by simp
  qed
next
  case (4 name cb ops a w)
  show ?case
  proof (cases "off name cb a w")
    case (Normal pr)
    obtain a1 w1 where pr: "pr = (a1, w1)" by (cases pr)
    from 4 Normal pr have "script_untouched a1 a' \<and> world_untouched w1 w'" by simp
    moreover from off_untouched[of name cb a w a1 w1] Normal pr
    have "script_untouched a a1 \<and> world_untouched w w1" by simp
    ultimately show ?thesis using script_untouched_trans world_untouched_trans by blast
  next
    case (Abrupt pr)
    obtain a1 w1 where pr: "pr = (a1, w1)" by (cases pr)
    from "4.prems" Abrupt pr have "a' = a1" "w' = w1" by simp_all
    with off_untouched[of name cb a w a1 w1] Abrupt pr show ?thesis by simp
  qed
next
  case (5 name cb ops a w)
  obtain a1 w1 where s: "onWorldEvent name cb a w = (a1, w1)" by (cases "onWorldEvent name cb a w")
  from 5 s have "script_untouched a1 a' \<and> world_untouched w1 w'" by simp
  with onWorldEvent_untouched[OF s] show ?case
    using script_untouched_trans world_untouched_trans by blast
next
  case (6 name cb ops a w)
  obtain a1 w1 where s: "offWorldEvent name cb a w = (a1, w1)" by (cases "offWorldEvent name cb a w")
  from 6 s have "script_untouched a1 a' \<and> world_untouched w1 w'" by simp
  with offWorldEvent_untouched[OF s] show ?case
    using script_untouched_trans world_untouched_trans by blast
next
  case (7 k ops a w)
  let ?a1 = "a\<lparr>app_worldNodes := List.insert k (app_worldNodes a)\<rparr>"
  let ?w1 = "w\<lparr>w_worldActive := insert k (w_worldActive w)\<rparr>"
  from 7 have "script_untouched ?a1 a' \<and> world_untouched ?w1 w'" by simp
  moreover have "script_untouched a ?a1" "world_untouched w ?w1"
    by (simp_all add: script_untouched_def world_untouched_def)
  ultimately show ?case
    using script_untouched_trans world_untouched_trans by blast
qed

lemma build_finish_fields:
  "build_finish t r a w = (res, a', w') \<Longrightarrow>
   app_mode a' = app_mode a \<and> app_root a' = app_root a \<and> app_blueprint a' = app_blueprint a \<and>
   app_n a' = app_n a \<and> app_data a' = app_data a"
  by (auto simp: build_finish_def Let_def split: completion.splits prod.splits if_splits)

lemma crash_eq:
  "crash a w =
     (case w_blueprints w (d_blueprint (app_data a)) of
        None \<Rightarrow> (Rejected, a\<lparr>app_building := True, app_n := app_n a + 1\<rparr>, w)
      | Some bp \<Rightarrow>
          (let t = \<lparr>t_n = app_n a + 1, t_blueprint = bp, t_crashed = True, t_script = None, t_root = None\<rparr>;
               a1 = a\<lparr>app_building := True, app_n := app_n a + 1\<rparr>
           in if truthy (bp_script bp) then (Suspended (AwaitScript t), a1, w)
              else if uploading_elsewhere (app_data a) w
                   then (Suspended (AwaitCrashBlock (t\<lparr>t_root := Some loading_box\<rparr>)), a1, w)
                   else (case bp_model bp of
                           None \<Rightarrow> (Suspended (AwaitCrashBlock t), a1, console_error ''TypeError'' w)
                         | Some url \<Rightarrow> (Suspended (AwaitModel url t), a1, w))))"
  by (simp add: crash_def build_begin_def build_after_script_def build_after_model_def Let_def
      split: option.splits)

lemma crash_is_build_true: "crash a w = build True a w"
  by (simp add: crash_def build_def build_begin_def build_after_script_def build_after_model_def Let_def
      split: option.splits)

lemma crash_result:
  "crash a w = (res, a', w') \<Longrightarrow>
   res \<noteq> Finished \<and> a' = a\<lparr>app_building := True, app_n := app_n a + 1\<rparr> \<and>
   (\<forall>p. res = Suspended p \<longrightarrow> t_n (task_of p) = app_n a + 1)"
  by (auto simp: crash_eq Let_def split: option.splits if_splits)

lemmas ex_script_defs = ex_scripted_def ex_scripted_world_def ex_script_def resume_script_def
  on_def on_add_def inherited_names_def hotEventNames_def set_add_def onEvent_def push_event_def
  emit_def App_fixedUpdate_def
  crash_eq console_error_def

lemma calls_made_eq:
  "calls_made cs a1 a2 =
     map (\<lambda>c. (cb_id c, a1, a2))
       (takeWhile (\<lambda>c. \<not> cb_throws c a1 a2) cs @ take 1 (dropWhile (\<lambda>c. \<not> cb_throws c a1 a2) cs))"
  by (induction cs) simp_all

lemma calls_made_all:
  "\<not> (\<exists>c \<in> set cs. cb_throws c a1 a2) \<Longrightarrow> calls_made cs a1 a2 = map (\<lambda>c. (cb_id c, a1, a2)) cs"
  by (induction cs) simp_all

lemma emit_eq:
  "emit (ev_name e) (ev_data e) (ev_networkId e) a w =
     (if event_throws a e
      then Abrupt (w\<lparr>w_invoked := w_invoked w @ event_calls a e\<rparr>)
      else Normal (w\<lparr>w_invoked := w_invoked w @ event_calls a e\<rparr>))"
  by (simp add: emit_def event_throws_def event_calls_def call_all_eq split: option.splits)


lemma drain_any:
  "drain v q a w = Normal (q', w') \<or> drain v q a w = Abrupt (q', w') \<Longrightarrow>
   \<exists>k. k \<le> length (takeWhile (due v) q) \<and> q' = drop k q \<and>
       w' = w\<lparr>w_invoked := w_invoked w @ concat (map (event_calls a) (take k q))\<rparr>"
proof (induction q arbitrary: w)
  case Nil
  then have "q' = drop 0 [] \<and> w' = w\<lparr>w_invoked := w_invoked w @ concat (map (event_calls a) (take 0 []))\<rparr>"
    by auto
  then show ?case by auto
next
  case (Cons e q)
  show ?case
  proof (cases "due v e")
    case False
    with Cons.prems have "q' = drop 0 (e # q) \<and>
        w' = w\<lparr>w_invoked := w_invoked w @ concat (map (event_calls a) (take 0 (e # q)))\<rparr>"
      by (auto simp: due_def)
    then show ?thesis by (intro exI[of _ 0]) simp
  next
    case True
    let ?w1 = "w\<lparr>w_invoked := w_invoked w @ event_calls a e\<rparr>"
    show ?thesis
    proof (cases "event_throws a e")
      case t: True
      with Cons.prems True have "q' = q" "w' = ?w1"
        by (auto simp: due_def emit_eq)
      then have "q' = drop 1 (e # q) \<and>
          w' = w\<lparr>w_invoked := w_invoked w @ concat (map (event_calls a) (take 1 (e # q)))\<rparr>"
        by simp
      with True show ?thesis by (intro exI[of _ 1]) simp
    next
      case f: False
      with Cons.prems True have
        "drain v q a ?w1 = Normal (q', w') \<or> drain v q a ?w1 = Abrupt (q', w')"
        by (auto simp: due_def emit_eq)
      from Cons.IH[OF this] obtain k where k: "k \<le> length (takeWhile (due v) q)" "q' = drop k q"
        "w' = ?w1\<lparr>w_invoked := w_invoked ?w1 @ concat (map (event_calls a) (take k q))\<rparr>"
        by blast
      then have "Suc k \<le> length (takeWhile (due v) (e # q)) \<and> q' = drop (Suc k) (e # q) \<and>
          w' = w\<lparr>w_invoked := w_invoked w @ concat (map (event_calls a) (take (Suc k) (e # q)))\<rparr>"
        using True by simp
      then show ?thesis by blast
    qed
  qed
qed




lemma App_destroy_live:
  assumes "\<not> app_dead a" and "App_destroy local a w = (a', w')"
  shows "app_dead a' \<and> app_root a' = map_option (\<lambda>r. r\<lparr>node_active := False\<rparr>) (app_root a) \<and>
         app_listeners a' = Map.empty \<and> app_control a' = None \<and> app_abortController a' = None \<and>
         d_id (app_data a) \<notin> w_hot w' \<and> w_items w' = w_items w - {d_id (app_data a)} \<and>
         w_sent w' = w_sent w @ (if local then [EntityRemoved (d_id (app_data a))] else [])"
  using assms
  by (auto simp: App_destroy_def unbuild_eq entities_remove_def network_send_def Let_def)

lemma App_destroy_dead: "app_dead a \<Longrightarrow> App_destroy local a w = (a, w)"
  by (simp add: App_destroy_def)

lemma App_destroy_makes_dead: "App_destroy local a w = (a', w') \<Longrightarrow> app_dead a'"
  by (cases "app_dead a")
     (auto simp: App_destroy_def unbuild_eq entities_remove_def network_send_def Let_def)

lemma PlayerRemote_destroy_live:
  assumes "\<not> pr_dead p" and "PlayerRemote_destroy local p w = (p', w')"
  shows "pr_dead p' \<and> \<not> pr_baseActive p' \<and> pr_id p \<notin> w_hot w' \<and>
         w_items w' = w_items w - {pr_id p} \<and>
         w_emitted w' = w_emitted w @ [(''leave'', pr_id p)] \<and>
         w_sent w' = w_sent w @ (if local then [EntityRemoved (pr_id p)] else [])"
  using assms
  by (auto simp: PlayerRemote_destroy_def setHot_def events_emit_def entities_remove_def
      network_send_def Let_def)

lemma PlayerRemote_destroy_makes_dead: "PlayerRemote_destroy local p w = (p', w') \<Longrightarrow> pr_dead p'"
  by (cases "pr_dead p") (auto simp: PlayerRemote_destroy_def Let_def)

lemma App_modify_transform_only:
  assumes "app_networkPos a = Some lp" and "app_networkQuat a = Some lq" and "\<not> wants_rebuild u"
  shows "\<exists>a'. App_modify u a w = Normal (None, a', w) \<and>
           app_script a' = app_script a \<and> app_listeners a' = app_listeners a \<and>
           app_mode a' = app_mode a \<and> app_root a' = app_root a \<and> app_n a' = app_n a \<and>
           app_building a' = app_building a \<and>
           app_networkPos a' = Some (case u_position u of None \<Rightarrow> lp | Some p \<Rightarrow> pushArray p lp) \<and>
           app_networkQuat a' = Some (case u_quaternion u of None \<Rightarrow> lq | Some q \<Rightarrow> pushArray q lq) \<and>
           d_position (app_data a') = (case u_position u of None \<Rightarrow> d_position (app_data a) | Some p \<Rightarrow> p) \<and>
           d_quaternion (app_data a') =
             (case u_quaternion u of None \<Rightarrow> d_quaternion (app_data a) | Some q \<Rightarrow> q) \<and>
           d_scale (app_data a') = (case u_scale u of None \<Rightarrow> d_scale (app_data a) | Some s \<Rightarrow> s)"
  using assms
  by (cases "u_position u"; cases "u_quaternion u"; cases "u_scale u")
     (simp_all add: App_modify_def modify_position_def modify_quaternion_def modify_rest_def
        modify_keys_def wants_rebuild_def Let_def)

lemma App_modify_rebuilds:
  assumes "app_networkPos a = Some lp" and "app_networkQuat a = Some lq" and "wants_rebuild u"
  shows "\<exists>a1 r a' w'. App_modify u a w = Normal (Some r, a', w') \<and> build False a1 w = (r, a', w') \<and>
           app_n a1 = app_n a"
proof -
  obtain a1 where 1: "modify_position u (a\<lparr>app_data := modify_keys u (app_data a)\<rparr>) = Normal a1"
    and 2: "app_networkQuat a1 = Some lq" and 3: "app_n a1 = app_n a"
    using assms(1,2) by (cases "u_position u") (simp_all add: modify_position_def Let_def)
  obtain a2 where 4: "modify_quaternion u a1 = Normal a2" and 5: "app_n a2 = app_n a1"
    using 2 by (cases "u_quaternion u") (simp_all add: modify_quaternion_def Let_def)
  let ?a3 = "a2\<lparr>app_data := modify_rest u (app_data a2)\<rparr>"
  obtain r a' w' where b: "build False ?a3 w = (r, a', w')" by (cases "build False ?a3 w")
  with 1 4 assms(3) have "App_modify u a w = Normal (Some r, a', w')"
    by (simp add: App_modify_def Let_def)
  with b 3 5 show ?thesis by (intro exI[of _ ?a3] exI[of _ r] exI[of _ a'] exI[of _ w']) simp
qed

lemma flush_loop_eq:
  "flush_loop H q c =
     c\<lparr>cn_queue := [],
       cn_world := fst (spec_drain H (cn_world c, cn_errors c) q),
       cn_dispatched := cn_dispatched c @ handled H q,
       cn_errors := snd (spec_drain H (cn_world c, cn_errors c) q)\<rparr>"
proof (induction q arbitrary: c)
  case Nil
  show ?case by (simp add: handled_def spec_drain_def)
next
  case (Cons p q)
  obtain m d where p: "p = (m, d)" by (cases p)
  show ?case
  proof (cases "H m")
    case Missing
    then show ?thesis using Cons.IH[of "c\<lparr>cn_queue := q\<rparr>"] p
      by (simp add: handled_def spec_drain_def spec_dispatch_def)
  next
    case Plain
    then show ?thesis using Cons.IH[of "c\<lparr>cn_queue := q, cn_errors := cn_errors c + 1\<rparr>"] p
      by (simp add: handled_def spec_drain_def spec_dispatch_def)
  next
    case (Handler h)
    show ?thesis
    proof (cases "h d (cn_world c)")
      case (Normal w')
      then show ?thesis
        using Cons.IH[of "c\<lparr>cn_queue := q, cn_world := w',
                            cn_dispatched := cn_dispatched c @ [(m, d)]\<rparr>"] p Handler
        by (simp add: handled_def spec_drain_def spec_dispatch_def)
    next
      case (Abrupt w')
      then show ?thesis
        using Cons.IH[of "c\<lparr>cn_queue := q, cn_world := w',
                            cn_dispatched := cn_dispatched c @ [(m, d)],
                            cn_errors := cn_errors c + 1\<rparr>"] p Handler
        by (simp add: handled_def spec_drain_def spec_dispatch_def)
    qed
  qed
qed

lemma spec_drain_append:
  "spec_drain H s (q1 @ q2) = spec_drain H (spec_drain H s q1) q2"
  by (simp add: spec_drain_def)

lemma spec_drain_throw:
  assumes "H m = Handler h" and "spec_drain H s q1 = (w1, k)" and "h d w1 = Abrupt w2"
  shows "spec_drain H s (q1 @ (m, d) # q2) = spec_drain H (w2, k + 1) q2"
  using assms by (simp add: spec_drain_def spec_dispatch_def)

lemma arrived_append: "arrived rd (xs @ ys) = arrived rd xs @ arrived rd ys"
  by (induction rd xs rule: arrived.induct) (simp_all split: option.splits)

lemma client_run_snoc:
  "client_run rd H P (steps @ [s]) c = client_step rd H P (client_run rd H P steps c) s"
  by (simp add: client_run_def)

lemma handled_append: "handled H (xs @ ys) = handled H xs @ handled H ys"
  by (simp add: handled_def)

lemma phases_of_append: "phases_of (xs @ ys) = phases_of xs @ phases_of ys"
  by (induction xs rule: phases_of.induct) simp_all

lemma client_step_quiet:
  "s \<noteq> FrameHead \<Longrightarrow>
   cn_dispatched (client_step rd H P c s) = cn_dispatched c \<and>
   cn_errors (client_step rd H P c s) = cn_errors c \<and>
   cn_queue (client_step rd H P c s) = cn_queue c @ arrived rd [s] \<and>
   cn_world (client_step rd H P c s) = run_phases P (phases_of [s]) (cn_world c)"
  by (cases s) (simp_all add: onPacket_def enqueue_def run_phases_def split: option.splits)

lemma client_run_quiet:
  "FrameHead \<notin> set steps \<Longrightarrow>
   cn_dispatched (client_run rd H P steps c) = cn_dispatched c \<and>
   cn_errors (client_run rd H P steps c) = cn_errors c \<and>
   cn_queue (client_run rd H P steps c) = cn_queue c @ arrived rd steps \<and>
   cn_world (client_run rd H P steps c) = run_phases P (phases_of steps) (cn_world c)"
proof (induction steps rule: rev_induct)
  case Nil
  show ?case by (simp add: client_run_def run_phases_def)
next
  case (snoc s steps)
  then have s: "s \<noteq> FrameHead" and IH: "cn_dispatched (client_run rd H P steps c) = cn_dispatched c \<and>
   cn_errors (client_run rd H P steps c) = cn_errors c \<and>
   cn_queue (client_run rd H P steps c) = cn_queue c @ arrived rd steps \<and>
   cn_world (client_run rd H P steps c) = run_phases P (phases_of steps) (cn_world c)" by auto
  from client_step_quiet[OF s, of rd H P "client_run rd H P steps c"] IH
  show ?case by (simp add: client_run_snoc arrived_append phases_of_append run_phases_def)
qed

lemma flush_loop_append:
  "flush_loop H (q1 @ q2) c = flush_loop H q2 (flush_loop H q1 c)"
  by (simp add: flush_loop_eq[of H "q1 @ q2"] flush_loop_eq[of H q2] flush_loop_eq[of H q1]
      spec_drain_append handled_append)

lemma flush_loop_throw:
  assumes "H m = Handler h" and "h d (cn_world c) = Abrupt w2"
  shows "flush_loop H ((m, d) # q) c =
         flush_loop H q (c\<lparr>cn_queue := q, cn_world := w2,
            cn_dispatched := cn_dispatched c @ [(m, d)], cn_errors := cn_errors c + 1\<rparr>)"
  using assms by simp

lemma client_step_order:
  "cn_dispatched (client_step rd H P c s) @ handled H (cn_queue (client_step rd H P c s)) =
   cn_dispatched c @ handled H (cn_queue c @ arrived rd [s])"
proof (cases s)
  case (Message f)
  then show ?thesis by (simp add: onPacket_def enqueue_def split: option.splits)
next
  case FrameHead
  then show ?thesis by (simp add: preFixedUpdate_def flush_def flush_loop_eq handled_def)
next
  case (Phase p)
  then show ?thesis by simp
qed

lemma client_run_order:
  "cn_dispatched (client_run rd H P steps c) @ handled H (cn_queue (client_run rd H P steps c)) =
   cn_dispatched c @ handled H (cn_queue c @ arrived rd steps)"
proof (induction steps rule: rev_induct)
  case Nil
  show ?case by (simp add: client_run_def)
next
  case (snoc s steps)
  from client_step_order[of rd H P "client_run rd H P steps c" s] snoc
  show ?case by (simp add: client_run_snoc arrived_append handled_append)
qed

lemma client_run_append:
  "client_run rd H P (xs @ ys) c = client_run rd H P ys (client_run rd H P xs c)"
  by (simp add: client_run_def)

lemma client_run_head:
  "cn_queue (client_run rd H P (steps @ [FrameHead]) c) = [] \<and>
   cn_dispatched (client_run rd H P (steps @ [FrameHead]) c) =
     cn_dispatched c @ handled H (cn_queue c @ arrived rd steps)"
proof -
  have q: "cn_queue (client_run rd H P (steps @ [FrameHead]) c) = []"
    by (simp add: client_run_snoc preFixedUpdate_def flush_def flush_loop_eq)
  from client_run_order[of rd H P "steps @ [FrameHead]" c] q
  show ?thesis by (simp add: arrived_append handled_def)
qed

lemma ground_steep:
  assumes "in_sweepNormal i = Some nrm" and "angleTo UP nrm * RAD2DEG > 60"
  shows "steep_slope (update_grounded i (track_platform i p)) =
           (track_platform i p)\<lparr>pl_justLeftGround := False, pl_grounded := False,
              pl_groundNormal := UP, pl_groundAngle := 0, pl_slipping := True\<rparr>"
  using assms by (simp add: steep_slope_def update_grounded_def)

lemma slipping_only_when_steep:
  "pl_slipping (steep_slope q) \<Longrightarrow>
   \<not> pl_grounded (steep_slope q) \<and> pl_groundNormal (steep_slope q) = UP \<and>
   pl_groundAngle (steep_slope q) = 0 \<and> \<not> pl_justLeftGround (steep_slope q)"
  by (auto simp: steep_slope_def split: if_splits)

lemma ground_velocity:
  "pl_velocity (steep_slope (update_grounded i (track_platform i p))) = pl_velocity p"
  by (simp add: steep_slope_def update_grounded_def track_platform_def split: option.splits)

lemma middle_keeps:
  "flags (apply_gravity i (jump_fall dt (swap_material q))) = flags q \<and>
   pl_velocity (apply_gravity i (jump_fall dt (swap_material q))) = pl_velocity q"
  by (simp add: flags_def apply_gravity_def jump_fall_def swap_material_def Let_def split: option.splits)

lemma shape_slipping:
  assumes "pl_slipping q" "\<not> pl_grounded q" "pl_groundNormal q = UP" "\<not> pl_justLeftGround q"
  shows "vy (pl_velocity (shape_velocity dt q)) = vy (pl_velocity q) - 0.5 \<and>
         flags (shape_velocity dt q) = flags q"
  using assms
  by (simp add: shape_velocity_def flags_def Let_def UP_def dot_def multiplyScalar_def vsub_def vadd_def)

lemma tail_keeps:
  "\<not> pl_grounded q \<Longrightarrow>
   flags (apply_jump i (move_force i q)) = flags q \<and>
   pl_velocity (apply_jump i (move_force i q)) = pl_velocity q"
  by (simp add: flags_def apply_jump_def move_force_def Let_def)


lemma slipping_kept:
  "pl_slipping (apply_jump i q) = pl_slipping q"
  "pl_slipping (move_force i q) = pl_slipping q"
  "pl_slipping (shape_velocity dt q) = pl_slipping q"
  by (simp_all add: apply_jump_def move_force_def shape_velocity_def Let_def)

lemma show_nat_100: "show_nat 100 = ''100''"
  by (simp add: show_nat.simps[of 100] show_nat.simps[of 10] show_nat.simps[of 1]
      show_nat.simps[of "Suc 0"] digit_def)

lemma silent_console [simp]: "silent (console_error msg w) = silent w"
  by (simp add: silent_def console_error_def)

lemma build_finish_result:
  "build_finish t r a w = (res, a', w') \<Longrightarrow> res = Finished \<or> res = Rejected"
  by (auto simp: build_finish_def Let_def split: completion.splits prod.splits)

lemma after_model_superseded:
  "app_n a \<noteq> t_n t \<Longrightarrow> build_after_model build_commit t a w = (r, a', w') \<Longrightarrow>
   a' = a \<and> w' = w \<and> (r = Finished \<or> r = Suspended (AwaitCrashBlock t))"
  by (auto simp: build_after_model_def build_commit_def split: if_splits)

lemma after_script_superseded:
  assumes "app_n a \<noteq> t_n t" and "build_after_script build_commit t a w = (r, a', w')"
  shows "a' = a \<and> silent w' = silent w \<and>
         (r = Finished \<or> (\<exists>p. r = Suspended p \<and> generation p = t_n t))"
proof (cases "uploading_elsewhere (app_data a) w")
  case True
  with assms(2) have "build_after_model build_commit (t\<lparr>t_root := Some loading_box\<rparr>) a w = (r, a', w')"
    by (simp add: build_after_script_def)
  from after_model_superseded[OF _ this] assms(1) show ?thesis by (auto simp: generation_def)
next
  case False
  show ?thesis
  proof (cases "bp_model (t_blueprint t)")
    case None
    with False assms(2) have
      "build_after_model build_commit t a (console_error ''TypeError'' w) = (r, a', w')"
      by (simp add: build_after_script_def)
    from after_model_superseded[OF assms(1) this] show ?thesis by (auto simp: generation_def)
  next
    case (Some url)
    with False assms(2) show ?thesis by (auto simp: build_after_script_def generation_def)
  qed
qed

lemma resume_superseded:
  assumes "generation p \<noteq> app_n a" and "resume p act a w = Some (r, a', w')"
  shows "a' = a \<and> silent w' = silent w \<and>
         (r = Finished \<or> r = Rejected \<or> (\<exists>p'. r = Suspended p' \<and> generation p' = generation p))"
proof (cases p)
  case (AwaitScript t)
  with assms(2) obtain g res where act: "act = ScriptLoaded g res" and g: "t_n t = g"
    and rs: "resume_script t res a w = (r, a', w')"
    by (cases act) (auto simp: resume_def split: if_splits)
  from assms(1) AwaitScript have n: "app_n a \<noteq> t_n t" by (auto simp: generation_def)
  show ?thesis
  proof (cases res)
    case None
    with rs have "build_after_script build_commit (t\<lparr>t_crashed := True\<rparr>) a (console_error ''err'' w) = (r, a', w')"
      by (simp add: resume_script_def)
    from after_script_superseded[OF _ this] n AwaitScript show ?thesis by (auto simp: generation_def)
  next
    case (Some s)
    with rs have "build_after_script build_commit (t\<lparr>t_script := Some s\<rparr>) a w = (r, a', w')"
      by (simp add: resume_script_def)
    from after_script_superseded[OF _ this] n AwaitScript show ?thesis by (auto simp: generation_def)
  qed
next
  case (AwaitModel url t)
  with assms(2) obtain g res where act: "act = ModelLoaded g res" and g: "t_n t = g"
    and rs: "resume_model url t res a w = (r, a', w')"
    by (cases act) (auto simp: resume_def split: if_splits)
  from assms(1) AwaitModel have n: "app_n a \<noteq> t_n t" by (auto simp: generation_def)
  show ?thesis
  proof (cases res)
    case None
    with rs have "build_after_model build_commit t a (console_error ''err'' w) = (r, a', w')"
      by (simp add: resume_model_def)
    from after_model_superseded[OF n this] AwaitModel show ?thesis by (auto simp: generation_def)
  next
    case (Some gl)
    with rs have "build_after_model build_commit (t\<lparr>t_root := Some (toNodes url gl)\<rparr>) a w = (r, a', w')"
      by (simp add: resume_model_def)
    from after_model_superseded[OF _ this] n AwaitModel show ?thesis by (auto simp: generation_def)
  qed
next
  case (AwaitCrashBlock t)
  with assms(2) obtain g res where act: "act = CrashBlockLoaded g res" and g: "t_n t = g"
    and rs: "resume_crash_block t res a w = (r, a', w')"
    by (cases act) (auto simp: resume_def split: if_splits)
  from assms(1) AwaitCrashBlock have n: "app_n a \<noteq> t_n t" by (auto simp: generation_def)
  with rs show ?thesis
    by (cases res) (auto simp: resume_crash_block_def build_commit_def)
qed

lemma build_commit_generation:
  assumes "build_commit t a w = (r, a', w')"
  shows "app_n a \<le> app_n a' \<and>
         (\<forall>p. r = Suspended p \<longrightarrow> generation p = app_n a' \<and> app_n a < app_n a')"
proof (cases "app_n a \<noteq> t_n t")
  case True
  with assms show ?thesis by (auto simp: build_commit_def)
next
  case False
  obtain a1 w1 where u: "unbuild a w = (a1, w1)" by (cases "unbuild a w")
  then have n1: "app_n a1 = app_n a" by (auto simp: unbuild_eq)
  let ?a2 = "a1\<lparr>app_mode := Some (build_mode (app_data a1) w1), app_blueprint := Some (t_blueprint t)\<rparr>"
  show ?thesis
  proof (cases "t_root t")
    case None
    with assms False u n1 show ?thesis by (auto simp: build_commit_def Let_def)
  next
    case (Some r0)
    let ?r1 = "r0\<lparr>node_position := d_position (app_data a1), node_quaternion := d_quaternion (app_data a1),
                node_scale := (case d_scale (app_data a1) of None \<Rightarrow> node_scale r0 | Some s \<Rightarrow> s),
                node_active := True, node_physics := \<not> truthy (d_mover (app_data a1))\<rparr>"
    let ?a3 = "?a2\<lparr>app_root := Some ?r1\<rparr>"
    show ?thesis
    proof (cases "\<exists>s. t_script t = Some s \<and> build_mode (app_data a1) w1 = ACTIVE \<and> \<not> t_crashed t")
      case True
      then obtain s where s: "t_script t = Some s" "build_mode (app_data a1) w1 = ACTIVE" "\<not> t_crashed t"
        by blast
      let ?a4 = "?a3\<lparr>app_abortController := Some (), app_script := Some s\<rparr>"
      show ?thesis
      proof (cases "exec (script_ops s) ?a4 w1")
        case (Normal pr)
        obtain a5 w5 where pr: "pr = (a5, w5)" by (cases pr)
        with Normal have "script_untouched ?a4 a5" using exec_untouched by blast
        then have n5: "app_n a5 = app_n a" using n1 by (simp add: script_untouched_def)
        from assms False u Some s Normal pr have bf: "build_finish t ?r1 a5 w5 = (r, a', w')"
          by (simp add: build_commit_def Let_def)
        from build_finish_fields[OF bf] build_finish_result[OF bf] n5 show ?thesis by auto
      next
        case (Abrupt pr)
        obtain a5 w5 where pr: "pr = (a5, w5)" by (cases pr)
        with Abrupt have "script_untouched ?a4 a5" using exec_untouched by blast
        then have n5: "app_n a5 = app_n a" using n1 by (simp add: script_untouched_def)
        from assms False u Some s Abrupt pr have
          "crash a5 (console_error ''err'' (console_error ''script crashed'' w5)) = (r, a', w')"
          by (simp add: build_commit_def Let_def)
        from crash_result[OF this] n5 show ?thesis by (auto simp: generation_def)
      qed
    next
      case F: False
      with assms False u Some have bf: "build_finish t ?r1 ?a3 w1 = (r, a', w')"
        by (auto simp: build_commit_def Let_def split: option.splits if_splits)
      from build_finish_fields[OF bf] build_finish_result[OF bf] n1 show ?thesis by auto
    qed
  qed
qed

text \<open>A stage of the build of task t either waits again or goes through commit.\<close>

lemma after_model_generation:
  assumes "build_after_model build_commit t a w = (r, a', w')"
  shows "app_n a \<le> app_n a' \<and>
         (\<forall>p. r = Suspended p \<longrightarrow>
            (generation p = t_n t \<and> app_n a' = app_n a) \<or>
            (generation p = app_n a' \<and> app_n a < app_n a'))"
proof (cases "t_crashed t \<or> t_root t = None")
  case True
  with assms show ?thesis by (auto simp: build_after_model_def generation_def)
next
  case False
  with assms have "build_commit t a w = (r, a', w')" by (simp add: build_after_model_def)
  from build_commit_generation[OF this] show ?thesis by auto
qed

lemma after_script_generation:
  assumes "build_after_script build_commit t a w = (r, a', w')"
  shows "app_n a \<le> app_n a' \<and>
         (\<forall>p. r = Suspended p \<longrightarrow>
            (generation p = t_n t \<and> app_n a' = app_n a) \<or>
            (generation p = app_n a' \<and> app_n a < app_n a'))"
proof (cases "uploading_elsewhere (app_data a) w")
  case True
  with assms have "build_after_model build_commit (t\<lparr>t_root := Some loading_box\<rparr>) a w = (r, a', w')"
    by (simp add: build_after_script_def)
  from after_model_generation[OF this] show ?thesis by simp
next
  case False
  show ?thesis
  proof (cases "bp_model (t_blueprint t)")
    case None
    with False assms have
      "build_after_model build_commit t a (console_error ''TypeError'' w) = (r, a', w')"
      by (simp add: build_after_script_def)
    from after_model_generation[OF this] show ?thesis by simp
  next
    case (Some url)
    with False assms show ?thesis by (auto simp: build_after_script_def generation_def)
  qed
qed

lemma resume_generation:
  assumes "resume p act a w = Some (r, a', w')"
  shows "app_n a \<le> app_n a' \<and>
         (\<forall>p'. r = Suspended p' \<longrightarrow>
            (generation p' = generation p \<and> app_n a' = app_n a) \<or>
            (generation p' = app_n a' \<and> app_n a < app_n a'))"
proof (cases p)
  case (AwaitScript t)
  with assms obtain g res where rs: "resume_script t res a w = (r, a', w')"
    by (cases act) (auto simp: resume_def split: if_splits)
  show ?thesis
  proof (cases res)
    case None
    with rs have "build_after_script build_commit (t\<lparr>t_crashed := True\<rparr>) a (console_error ''err'' w) = (r, a', w')"
      by (simp add: resume_script_def)
    from after_script_generation[OF this] AwaitScript show ?thesis by (simp add: generation_def)
  next
    case (Some s)
    with rs have "build_after_script build_commit (t\<lparr>t_script := Some s\<rparr>) a w = (r, a', w')"
      by (simp add: resume_script_def)
    from after_script_generation[OF this] AwaitScript show ?thesis by (simp add: generation_def)
  qed
next
  case (AwaitModel url t)
  with assms obtain g res where rs: "resume_model url t res a w = (r, a', w')"
    by (cases act) (auto simp: resume_def split: if_splits)
  show ?thesis
  proof (cases res)
    case None
    with rs have "build_after_model build_commit t a (console_error ''err'' w) = (r, a', w')"
      by (simp add: resume_model_def)
    from after_model_generation[OF this] AwaitModel show ?thesis by (simp add: generation_def)
  next
    case (Some gl)
    with rs have "build_after_model build_commit (t\<lparr>t_root := Some (toNodes url gl)\<rparr>) a w = (r, a', w')"
      by (simp add: resume_model_def)
    from after_model_generation[OF this] AwaitModel show ?thesis by (simp add: generation_def)
  qed
next
  case (AwaitCrashBlock t)
  with assms obtain g res where rs: "resume_crash_block t res a w = (r, a', w')"
    by (cases act) (auto simp: resume_def split: if_splits)
  show ?thesis
  proof (cases res)
    case None
    with rs show ?thesis by (auto simp: resume_crash_block_def)
  next
    case (Some gl)
    with rs have "build_commit (t\<lparr>t_root := Some (toNodes crash_block_url gl)\<rparr>) a w = (r, a', w')"
      by (simp add: resume_crash_block_def)
    from build_commit_generation[OF this] show ?thesis by auto
  qed
qed

lemma build_generation:
  assumes "build crashed a w = (r, a', w')"
  shows "app_n a < app_n a' \<and> (\<forall>p. r = Suspended p \<longrightarrow> generation p = app_n a')"
proof -
  let ?a1 = "a\<lparr>app_building := True, app_n := app_n a + 1\<rparr>"
  show ?thesis
  proof (cases "w_blueprints w (d_blueprint (app_data a))")
    case None
    with assms show ?thesis by (auto simp: build_def build_begin_def Let_def)
  next
    case (Some bp)
    let ?t = "\<lparr>t_n = app_n a + 1, t_blueprint = bp, t_crashed = crashed, t_script = None, t_root = None\<rparr>"
    show ?thesis
    proof (cases "truthy (bp_script bp)")
      case True
      with Some assms show ?thesis by (auto simp: build_def build_begin_def Let_def generation_def)
    next
      case False
      with Some assms have "build_after_script build_commit ?t ?a1 w = (r, a', w')"
        by (simp add: build_def build_begin_def Let_def)
      from after_script_generation[OF this] show ?thesis by auto
    qed
  qed
qed

lemma settle_simps:
  "sys_app (settle ps (r, a, w)) = a"
  "sys_world (settle ps (r, a, w)) = w"
  "sys_pending (settle ps (r, a, w)) = (case r of Suspended p \<Rightarrow> ps @ [p] | _ \<Rightarrow> ps)"
  by (cases r; simp add: settle_def)+

lemma settle_fresh:
  assumes "\<forall>p \<in> set ps. generation p \<le> n" and "distinct (map generation ps)"
    and "n < app_n a'" and "\<forall>p. r = Suspended p \<longrightarrow> generation p = app_n a'"
  shows "builds_ordered (settle ps (r, a', w'))"
proof -
  from assms(1,3) have le': "\<forall>q \<in> set ps. generation q \<le> app_n a'" by force
  show ?thesis
  proof (cases r)
    case (Suspended p)
    with assms(4) have g: "generation p = app_n a'" by simp
    with assms(1,3) have "generation p \<notin> generation ` set ps" by force
    with assms(2) le' g Suspended show ?thesis
      unfolding builds_ordered_def settle_simps by auto
  next
    case Finished
    with assms(2) le' show ?thesis unfolding builds_ordered_def settle_simps by simp
  next
    case Rejected
    with assms(2) le' show ?thesis unfolding builds_ordered_def settle_simps by simp
  qed
qed

lemma settle_resumed:
  assumes "\<forall>q \<in> set (pre @ p # post). generation q \<le> n"
    and "distinct (map generation (pre @ p # post))"
    and "n \<le> app_n a'"
    and "\<forall>p'. r = Suspended p' \<longrightarrow>
            (generation p' = generation p \<and> app_n a' = n) \<or>
            (generation p' = app_n a' \<and> n < app_n a')"
  shows "builds_ordered (settle (pre @ post) (r, a', w'))"
proof -
  from assms(2) have np: "generation p \<notin> generation ` set (pre @ post)" by auto
  from assms(2) have d: "distinct (map generation (pre @ post))" by auto
  from assms(1) have le: "\<forall>q \<in> set (pre @ post). generation q \<le> n" by auto
  with assms(3) have le': "\<forall>q \<in> set (pre @ post). generation q \<le> app_n a'"
    using le_trans by blast
  show ?thesis
  proof (cases r)
    case (Suspended p')
    from assms(4) Suspended have
      "(generation p' = generation p \<and> app_n a' = n) \<or> (generation p' = app_n a' \<and> n < app_n a')"
      by simp
    then have "generation p' \<notin> generation ` set (pre @ post) \<and> generation p' \<le> app_n a'"
    proof
      assume "generation p' = generation p \<and> app_n a' = n"
      with np assms(1) show ?thesis by auto
    next
      assume h: "generation p' = app_n a' \<and> n < app_n a'"
      with le show ?thesis by force
    qed
    with d le' Suspended show ?thesis
      unfolding builds_ordered_def settle_simps by auto
  next
    case Finished
    with d le' show ?thesis unfolding builds_ordered_def settle_simps by simp
  next
    case Rejected
    with d le' show ?thesis unfolding builds_ordered_def settle_simps by simp
  qed
qed

lemma deliver_cases:
  "deliver seen ps act s = s \<or>
   (\<exists>pre p post r a' w'. ps = pre @ p # post \<and>
      resume p act (sys_app s) (sys_world s) = Some (r, a', w') \<and>
      deliver seen ps act s = settle (seen @ pre @ post) (r, a', w'))"
proof (induction ps arbitrary: seen)
  case Nil
  show ?case by simp
next
  case (Cons p ps)
  show ?case
  proof (cases "resume p act (sys_app s) (sys_world s)")
    case None
    from Cons.IH[of "seen @ [p]"] show ?thesis
    proof
      assume "deliver (seen @ [p]) ps act s = s"
      with None show ?thesis by simp
    next
      assume "\<exists>pre q post r a' w'. ps = pre @ q # post \<and>
        resume q act (sys_app s) (sys_world s) = Some (r, a', w') \<and>
        deliver (seen @ [p]) ps act s = settle ((seen @ [p]) @ pre @ post) (r, a', w')"
      then obtain pre q post r a' w' where h: "ps = pre @ q # post"
        "resume q act (sys_app s) (sys_world s) = Some (r, a', w')"
        "deliver (seen @ [p]) ps act s = settle ((seen @ [p]) @ pre @ post) (r, a', w')"
        by blast
      then have "p # ps = (p # pre) @ q # post \<and>
        resume q act (sys_app s) (sys_world s) = Some (r, a', w') \<and>
        deliver seen (p # ps) act s = settle (seen @ (p # pre) @ post) (r, a', w')"
        using None by simp
      then show ?thesis by blast
    qed
  next
    case (Some res)
    obtain r a' w' where res: "res = (r, a', w')" by (cases res)
    with Some have "p # ps = [] @ p # ps \<and>
        resume p act (sys_app s) (sys_world s) = Some (r, a', w') \<and>
        deliver seen (p # ps) act s = settle (seen @ [] @ ps) (r, a', w')"
      by simp
    then show ?thesis by blast
  qed
qed

lemma deliver_ordered:
  assumes "builds_ordered s"
  shows "builds_ordered (deliver [] (sys_pending s) act s)"
proof -
  from deliver_cases[of "[]" "sys_pending s" act s] show ?thesis
  proof
    assume "deliver [] (sys_pending s) act s = s"
    with assms show ?thesis by simp
  next
    assume "\<exists>pre p post r a' w'. sys_pending s = pre @ p # post \<and>
      resume p act (sys_app s) (sys_world s) = Some (r, a', w') \<and>
      deliver [] (sys_pending s) act s = settle ([] @ pre @ post) (r, a', w')"
    then obtain pre p post r a' w' where h: "sys_pending s = pre @ p # post"
      "resume p act (sys_app s) (sys_world s) = Some (r, a', w')"
      "deliver [] (sys_pending s) act s = settle (pre @ post) (r, a', w')"
      by auto
    from assms h(1) have o: "\<forall>q \<in> set (pre @ p # post). generation q \<le> app_n (sys_app s)"
      "distinct (map generation (pre @ p # post))"
      by (simp_all add: builds_ordered_def)
    from resume_generation[OF h(2)] settle_resumed[OF o, of a' r w'] h(3) show ?thesis by simp
  qed
qed

lemma modify_position_n:
  "modify_position u a = Normal a' \<or> modify_position u a = Abrupt a' \<Longrightarrow> app_n a' = app_n a"
  by (auto simp: modify_position_def Let_def split: option.splits)

lemma modify_quaternion_n:
  "modify_quaternion u a = Normal a' \<or> modify_quaternion u a = Abrupt a' \<Longrightarrow> app_n a' = app_n a"
  by (auto simp: modify_quaternion_def Let_def split: option.splits)

lemma App_modify_generation:
  "(App_modify u a w = Normal (Some r, a', w') \<longrightarrow>
      app_n a < app_n a' \<and> (\<forall>p. r = Suspended p \<longrightarrow> generation p = app_n a')) \<and>
   (App_modify u a w = Normal (None, a', w') \<or> App_modify u a w = Abrupt (x, a', w') \<longrightarrow>
      app_n a' = app_n a)"
proof (cases "modify_position u (a\<lparr>app_data := modify_keys u (app_data a)\<rparr>)")
  case (Abrupt a1)
  from modify_position_n[of u "a\<lparr>app_data := modify_keys u (app_data a)\<rparr>" a1] Abrupt
  have "app_n a1 = app_n a" by simp
  with Abrupt show ?thesis by (auto simp: App_modify_def)
next
  case (Normal a1)
  from modify_position_n[of u "a\<lparr>app_data := modify_keys u (app_data a)\<rparr>" a1] Normal
  have n1: "app_n a1 = app_n a" by simp
  show ?thesis
  proof (cases "modify_quaternion u a1")
    case (Abrupt a2)
    from modify_quaternion_n[of u a1 a2] Abrupt n1 have "app_n a2 = app_n a" by simp
    with Normal Abrupt show ?thesis by (auto simp: App_modify_def)
  next
    case N2: (Normal a2)
    from modify_quaternion_n[of u a1 a2] N2 n1 have n2: "app_n a2 = app_n a" by simp
    let ?a3 = "a2\<lparr>app_data := modify_rest u (app_data a2)\<rparr>"
    show ?thesis
    proof (cases "wants_rebuild u")
      case False
      with Normal N2 n2 show ?thesis by (auto simp: App_modify_def Let_def)
    next
      case True
      obtain r0 a0 w0 where b: "build False ?a3 w = (r0, a0, w0)" by (cases "build False ?a3 w")
      from build_generation[OF b] n2 have
        "app_n a < app_n a0 \<and> (\<forall>p. r0 = Suspended p \<longrightarrow> generation p = app_n a0)" by simp
      with Normal N2 True b show ?thesis by (auto simp: App_modify_def Let_def)
    qed
  qed
qed

lemma start_transform_generation:
  assumes "start_transform tm a w = (r, a', w')"
  shows "app_n a < app_n a' \<and> (\<forall>p. r = Suspended p \<longrightarrow> generation p = app_n a')"
proof -
  let ?a0 = "a\<lparr>app_data := (app_data a)\<lparr>d_mover := Some (w_networkId w), d_transformMode := Some tm\<rparr>\<rparr>"
  obtain r0 a1 w1 where b: "build False ?a0 w = (r0, a1, w1)" by (cases "build False ?a0 w")
  with assms have "r = r0" "a' = a1" by (simp_all add: start_transform_def Let_def)
  with build_generation[OF b] show ?thesis by simp
qed

lemma onEvent_n:
  "onEvent v name dat nid a w = Normal (a', w') \<or> onEvent v name dat nid a w = Abrupt (a', w') \<Longrightarrow>
   app_n a' = app_n a"
  by (auto simp: onEvent_def push_event_def Let_def split: if_splits option.splits completion.splits)

lemma App_fixedUpdate_generation:
  "(App_fixedUpdate dt a w = (Some r, a', w') \<longrightarrow>
      app_n a < app_n a' \<and> (\<forall>p. r = Suspended p \<longrightarrow> generation p = app_n a')) \<and>
   (App_fixedUpdate dt a w = (None, a', w') \<longrightarrow> app_n a' = app_n a)"
proof (cases "app_mode a = Some ACTIVE \<and> app_script a \<noteq> None")
  case False
  then show ?thesis by (auto simp: App_fixedUpdate_def)
next
  case True
  show ?thesis
  proof (cases "emit ''fixedUpdate'' (JNum dt) JUndefined a w")
    case (Normal w1)
    with True show ?thesis by (auto simp: App_fixedUpdate_def)
  next
    case (Abrupt w1)
    let ?w2 = "console_error ''err'' (console_error ''script fixedUpdate crashed'' w1)"
    obtain r0 a0 w0 where c: "crash a ?w2 = (r0, a0, w0)" by (cases "crash a ?w2")
    from crash_result[OF c] have
      "app_n a < app_n a0 \<and> (\<forall>p. r0 = Suspended p \<longrightarrow> generation p = app_n a0)"
      by (auto simp: generation_def)
    with True Abrupt c show ?thesis by (auto simp: App_fixedUpdate_def)
  qed
qed

lemma step_ordered:
  assumes "builds_ordered s"
  shows "builds_ordered (step act s)"
proof -
  let ?a = "sys_app s" and ?w = "sys_world s" and ?ps = "sys_pending s"
  from assms have o: "\<forall>p \<in> set ?ps. generation p \<le> app_n ?a" "distinct (map generation ?ps)"
    by (simp_all add: builds_ordered_def)
  have keep: "builds_ordered (s\<lparr>sys_app := a', sys_world := w'\<rparr>)" if "app_n a' = app_n ?a" for a' w'
    using o that by (simp add: builds_ordered_def)
  show ?thesis
  proof (cases act)
    case (ScriptLoaded g res)
    then show ?thesis using deliver_ordered[OF assms, of act] by (simp add: step_def)
  next
    case (ModelLoaded g res)
    then show ?thesis using deliver_ordered[OF assms, of act] by (simp add: step_def)
  next
    case (CrashBlockLoaded g res)
    then show ?thesis using deliver_ordered[OF assms, of act] by (simp add: step_def)
  next
    case (CallBuild crashed)
    obtain r a' w' where b: "build crashed ?a ?w = (r, a', w')" by (cases "build crashed ?a ?w")
    from build_generation[OF b] settle_fresh[OF o, of a' r w'] b CallBuild show ?thesis
      by (simp add: step_def)
  next
    case (Modify u)
    show ?thesis
    proof (cases "App_modify u ?a ?w")
      case (Normal res)
      obtain ro a' w' where res: "res = (ro, a', w')" by (cases res)
      show ?thesis
      proof (cases ro)
        case None
        with App_modify_generation[of u ?a ?w _ a' w'] Normal res keep[of a' w'] Modify
        show ?thesis by (simp add: step_def)
      next
        case (Some r)
        with App_modify_generation[of u ?a ?w r a' w'] Normal res settle_fresh[OF o, of a' r w'] Modify
        show ?thesis by (simp add: step_def)
      qed
    next
      case (Abrupt res)
      obtain ro a' w' where res: "res = (ro, a', w')" by (cases res)
      with App_modify_generation[of u ?a ?w _ a' w' ro] Abrupt keep[of a' w'] Modify
      show ?thesis by (simp add: step_def)
    qed
  next
    case (StartTransform tm)
    obtain r a' w' where b: "start_transform tm ?a ?w = (r, a', w')"
      by (cases "start_transform tm ?a ?w")
    from start_transform_generation[OF b] settle_fresh[OF o, of a' r w'] b StartTransform
    show ?thesis by (simp add: step_def)
  next
    case (OnEvent v name dat nid)
    show ?thesis
    proof (cases "onEvent v name dat nid ?a ?w")
      case (Normal res)
      obtain a' w' where res: "res = (a', w')" by (cases res)
      with onEvent_n[of v name dat nid ?a ?w a' w'] Normal keep[of a' w'] OnEvent
      show ?thesis by (simp add: step_def)
    next
      case (Abrupt res)
      obtain a' w' where res: "res = (a', w')" by (cases res)
      with onEvent_n[of v name dat nid ?a ?w a' w'] Abrupt keep[of a' w'] OnEvent
      show ?thesis by (simp add: step_def)
    qed
  next
    case (FixedUpdate dt)
    obtain ro a' w' where f: "App_fixedUpdate dt ?a ?w = (ro, a', w')"
      by (cases "App_fixedUpdate dt ?a ?w")
    show ?thesis
    proof (cases ro)
      case None
      with App_fixedUpdate_generation[of dt ?a ?w _ a' w'] f keep[of a' w'] FixedUpdate
      show ?thesis by (simp add: step_def)
    next
      case (Some r)
      with App_fixedUpdate_generation[of dt ?a ?w r a' w'] f settle_fresh[OF o, of a' r w'] FixedUpdate
      show ?thesis by (simp add: step_def)
    qed
  next
    case (SetBlueprints reg)
    with o show ?thesis by (simp add: step_def builds_ordered_def)
  next
    case (SetData d)
    with o show ?thesis by (simp add: step_def builds_ordered_def)
  qed
qed

lemma run_ordered: "builds_ordered s \<Longrightarrow> builds_ordered (run acts s)"
  by (induction acts arbitrary: s) (simp_all add: step_ordered)

lemma boot_ordered: "builds_ordered (boot d w)"
proof -
  obtain r a' w' where b: "build False (App_init d) w = (r, a', w')"
    by (cases "build False (App_init d) w")
  have "\<forall>p \<in> set []. generation p \<le> app_n (App_init d)" "distinct (map generation [])" by simp_all
  from settle_fresh[OF this, of a' r w'] build_generation[OF b] b show ?thesis
    by (simp add: boot_def new_App_def)
qed

lemma step_load: "is_load act \<Longrightarrow> step act s = deliver [] (sys_pending s) act s"
  by (cases act) (simp_all add: is_load_def step_def)

lemma load_after_settled:
  assumes "all_superseded s" and "is_load act"
  shows "sys_app (step act s) = sys_app s \<and> silent (sys_world (step act s)) = silent (sys_world s) \<and>
         all_superseded (step act s)"
proof -
  from deliver_cases[of "[]" "sys_pending s" act s] show ?thesis
  proof
    assume "deliver [] (sys_pending s) act s = s"
    with assms show ?thesis by (simp add: step_load)
  next
    assume "\<exists>pre p post r a' w'. sys_pending s = pre @ p # post \<and>
      resume p act (sys_app s) (sys_world s) = Some (r, a', w') \<and>
      deliver [] (sys_pending s) act s = settle ([] @ pre @ post) (r, a', w')"
    then obtain pre p post r a' w' where h: "sys_pending s = pre @ p # post"
      "resume p act (sys_app s) (sys_world s) = Some (r, a', w')"
      "deliver [] (sys_pending s) act s = settle (pre @ post) (r, a', w')"
      by auto
    from assms(1) h(1) have g: "generation p \<noteq> app_n (sys_app s)"
      and rest: "\<forall>q \<in> set (pre @ post). generation q \<noteq> app_n (sys_app s)"
      by (auto simp: all_superseded_def)
    from resume_superseded[OF g h(2)] have r: "a' = sys_app s" "silent w' = silent (sys_world s)"
      "r = Finished \<or> r = Rejected \<or> (\<exists>p'. r = Suspended p' \<and> generation p' = generation p)"
      by simp_all
    from r(3) g rest r(1) have "all_superseded (settle (pre @ post) (r, a', w'))"
      unfolding all_superseded_def settle_simps by auto
    with r(1,2) h(3) assms(2) show ?thesis by (simp add: step_load settle_simps)
  qed
qed

lemma loads_after_settled:
  "all_superseded s \<Longrightarrow> list_all is_load ls \<Longrightarrow>
   sys_app (run ls s) = sys_app s \<and> silent (sys_world (run ls s)) = silent (sys_world s)"
proof (induction ls arbitrary: s)
  case Nil
  show ?case by simp
next
  case (Cons act ls)
  from Cons.prems have l: "is_load act" "list_all is_load ls" by simp_all
  from load_after_settled[OF Cons.prems(1) l(1)] Cons.IH[of "step act s"] l(2)
  show ?case by simp
qed

lemma build_commit_installs:
  assumes "app_n a = t_n t" and "t_root t = Some r0" and "build_commit t a w = (res, a', w')"
  shows "app_blueprint a' = Some (t_blueprint t) \<and>
         (\<exists>r'. app_root a' = Some r' \<and> node_src r' = node_src r0 \<and> node_active r')"
proof -
  obtain a1 w1 where u: "unbuild a w = (a1, w1)" by (cases "unbuild a w")
  let ?m = "build_mode (app_data a1) w1"
  let ?a2 = "a1\<lparr>app_mode := Some ?m, app_blueprint := Some (t_blueprint t)\<rparr>"
  let ?r1 = "r0\<lparr>node_position := d_position (app_data a1), node_quaternion := d_quaternion (app_data a1),
                node_scale := (case d_scale (app_data a1) of None \<Rightarrow> node_scale r0 | Some s \<Rightarrow> s),
                node_active := True, node_physics := \<not> truthy (d_mover (app_data a1))\<rparr>"
  let ?a3 = "?a2\<lparr>app_root := Some ?r1\<rparr>"
  have goal: "app_blueprint a' = Some (t_blueprint t) \<and> app_root a' = Some ?r1"
  proof (cases "\<exists>s. t_script t = Some s \<and> ?m = ACTIVE \<and> \<not> t_crashed t")
    case True
    then obtain s where s: "t_script t = Some s" "?m = ACTIVE" "\<not> t_crashed t" by blast
    let ?a4 = "?a3\<lparr>app_abortController := Some (), app_script := Some s\<rparr>"
    show ?thesis
    proof (cases "exec (script_ops s) ?a4 w1")
      case (Normal pr)
      obtain a5 w5 where pr: "pr = (a5, w5)" by (cases pr)
      with Normal have "script_untouched ?a4 a5" using exec_untouched by blast
      then have f: "app_blueprint a5 = Some (t_blueprint t)" "app_root a5 = Some ?r1"
        by (simp_all add: script_untouched_def)
      from assms u s Normal pr have "build_finish t ?r1 a5 w5 = (res, a', w')"
        by (simp add: build_commit_def Let_def)
      from build_finish_fields[OF this] f show ?thesis by simp
    next
      case (Abrupt pr)
      obtain a5 w5 where pr: "pr = (a5, w5)" by (cases pr)
      with Abrupt have "script_untouched ?a4 a5" using exec_untouched by blast
      then have f: "app_blueprint a5 = Some (t_blueprint t)" "app_root a5 = Some ?r1"
        by (simp_all add: script_untouched_def)
      from assms u s Abrupt pr have
        "crash a5 (console_error ''err'' (console_error ''script crashed'' w5)) = (res, a', w')"
        by (simp add: build_commit_def Let_def)
      from crash_result[OF this] f show ?thesis by simp
    qed
  next
    case False
    with assms u have "build_finish t ?r1 ?a3 w1 = (res, a', w')"
      by (auto simp: build_commit_def Let_def split: option.splits if_splits)
    from build_finish_fields[OF this] show ?thesis by simp
  qed
  then show ?thesis by simp
qed

lemma crash_wf: "crash a w = (Suspended p, a', w') \<Longrightarrow> pending_wf p"
  by (auto simp: crash_eq Let_def split: option.splits if_splits)

lemma build_commit_wf:
  assumes "build_commit t a w = (Suspended p, a', w')"
  shows "pending_wf p"
proof (cases "app_n a \<noteq> t_n t")
  case True
  with assms show ?thesis by (auto simp: build_commit_def)
next
  case False
  obtain a1 w1 where u: "unbuild a w = (a1, w1)" by (cases "unbuild a w")
  let ?a2 = "a1\<lparr>app_mode := Some (build_mode (app_data a1) w1), app_blueprint := Some (t_blueprint t)\<rparr>"
  show ?thesis
  proof (cases "t_root t")
    case None
    with assms False u show ?thesis by (auto simp: build_commit_def Let_def)
  next
    case (Some r0)
    let ?r1 = "r0\<lparr>node_position := d_position (app_data a1), node_quaternion := d_quaternion (app_data a1),
                node_scale := (case d_scale (app_data a1) of None \<Rightarrow> node_scale r0 | Some s \<Rightarrow> s),
                node_active := True, node_physics := \<not> truthy (d_mover (app_data a1))\<rparr>"
    let ?a3 = "?a2\<lparr>app_root := Some ?r1\<rparr>"
    show ?thesis
    proof (cases "\<exists>s. t_script t = Some s \<and> build_mode (app_data a1) w1 = ACTIVE \<and> \<not> t_crashed t")
      case True
      then obtain s where s: "t_script t = Some s" "build_mode (app_data a1) w1 = ACTIVE" "\<not> t_crashed t"
        by blast
      let ?a4 = "?a3\<lparr>app_abortController := Some (), app_script := Some s\<rparr>"
      show ?thesis
      proof (cases "exec (script_ops s) ?a4 w1")
        case (Normal pr)
        obtain a5 w5 where pr: "pr = (a5, w5)" by (cases pr)
        from assms False u Some s Normal pr have bf: "build_finish t ?r1 a5 w5 = (Suspended p, a', w')"
          by (simp add: build_commit_def Let_def)
        from build_finish_result[OF bf] show ?thesis by simp
      next
        case (Abrupt pr)
        obtain a5 w5 where pr: "pr = (a5, w5)" by (cases pr)
        from assms False u Some s Abrupt pr have
          "crash a5 (console_error ''err'' (console_error ''script crashed'' w5)) = (Suspended p, a', w')"
          by (simp add: build_commit_def Let_def)
        from crash_wf[OF this] show ?thesis .
      qed
    next
      case F: False
      with assms False u Some have bf: "build_finish t ?r1 ?a3 w1 = (Suspended p, a', w')"
        by (auto simp: build_commit_def Let_def split: option.splits if_splits)
      from build_finish_result[OF bf] show ?thesis by simp
    qed
  qed
qed

lemma after_model_wf:
  "build_after_model build_commit t a w = (Suspended p, a', w') \<Longrightarrow> pending_wf p"
  using build_commit_wf[of t a w p a' w']
  by (auto simp: build_after_model_def split: if_splits)

lemma after_script_wf:
  assumes "t_root t = None" and "build_after_script build_commit t a w = (Suspended p, a', w')"
  shows "pending_wf p"
proof (cases "uploading_elsewhere (app_data a) w")
  case True
  with assms(2) have "build_after_model build_commit (t\<lparr>t_root := Some loading_box\<rparr>) a w = (Suspended p, a', w')"
    by (simp add: build_after_script_def)
  from after_model_wf[OF this] show ?thesis .
next
  case False
  show ?thesis
  proof (cases "bp_model (t_blueprint t)")
    case None
    with False assms(2) have
      "build_after_model build_commit t a (console_error ''TypeError'' w) = (Suspended p, a', w')"
      by (simp add: build_after_script_def)
    from after_model_wf[OF this] show ?thesis .
  next
    case (Some url)
    with False assms show ?thesis by (auto simp: build_after_script_def)
  qed
qed

lemma build_wf:
  assumes "build crashed a w = (Suspended p, a', w')"
  shows "pending_wf p"
proof -
  let ?a1 = "a\<lparr>app_building := True, app_n := app_n a + 1\<rparr>"
  show ?thesis
  proof (cases "w_blueprints w (d_blueprint (app_data a))")
    case None
    with assms show ?thesis by (auto simp: build_def build_begin_def Let_def)
  next
    case (Some bp)
    let ?t = "\<lparr>t_n = app_n a + 1, t_blueprint = bp, t_crashed = crashed, t_script = None, t_root = None\<rparr>"
    show ?thesis
    proof (cases "truthy (bp_script bp)")
      case True
      with Some assms show ?thesis by (auto simp: build_def build_begin_def Let_def)
    next
      case False
      with Some assms have "build_after_script build_commit ?t ?a1 w = (Suspended p, a', w')"
        by (simp add: build_def build_begin_def Let_def)
      from after_script_wf[OF _ this] show ?thesis by simp
    qed
  qed
qed

lemma resume_wf:
  assumes "pending_wf p" and "resume p act a w = Some (Suspended p', a', w')"
  shows "pending_wf p'"
proof (cases p)
  case (AwaitScript t)
  with assms(2) obtain g res where rs: "resume_script t res a w = (Suspended p', a', w')"
    by (cases act) (auto simp: resume_def split: if_splits)
  from assms(1) AwaitScript have r: "t_root t = None" by simp
  show ?thesis
  proof (cases res)
    case None
    with rs have "build_after_script build_commit (t\<lparr>t_crashed := True\<rparr>) a (console_error ''err'' w) = (Suspended p', a', w')"
      by (simp add: resume_script_def)
    from after_script_wf[OF _ this] r show ?thesis by simp
  next
    case (Some s)
    with rs have "build_after_script build_commit (t\<lparr>t_script := Some s\<rparr>) a w = (Suspended p', a', w')"
      by (simp add: resume_script_def)
    from after_script_wf[OF _ this] r show ?thesis by simp
  qed
next
  case (AwaitModel url t)
  with assms(2) obtain g res where rs: "resume_model url t res a w = (Suspended p', a', w')"
    by (cases act) (auto simp: resume_def split: if_splits)
  show ?thesis
  proof (cases res)
    case None
    with rs have "build_after_model build_commit t a (console_error ''err'' w) = (Suspended p', a', w')"
      by (simp add: resume_model_def)
    from after_model_wf[OF this] show ?thesis .
  next
    case (Some gl)
    with rs have "build_after_model build_commit (t\<lparr>t_root := Some (toNodes url gl)\<rparr>) a w = (Suspended p', a', w')"
      by (simp add: resume_model_def)
    from after_model_wf[OF this] show ?thesis .
  qed
next
  case (AwaitCrashBlock t)
  with assms(2) obtain g res where rs: "resume_crash_block t res a w = (Suspended p', a', w')"
    by (cases act) (auto simp: resume_def split: if_splits)
  show ?thesis
  proof (cases res)
    case None
    with rs show ?thesis by (auto simp: resume_crash_block_def)
  next
    case (Some gl)
    with rs have "build_commit (t\<lparr>t_root := Some (toNodes crash_block_url gl)\<rparr>) a w = (Suspended p', a', w')"
      by (simp add: resume_crash_block_def)
    from build_commit_wf[OF this] show ?thesis .
  qed
qed

lemma settle_wf:
  "list_all pending_wf ps \<Longrightarrow> (\<forall>p. r = Suspended p \<longrightarrow> pending_wf p) \<Longrightarrow>
   builds_wf (settle ps (r, a, w))"
  by (cases r) (simp_all add: builds_wf_def settle_simps)

lemma App_modify_wf:
  "App_modify u a w = Normal (Some (Suspended p), a', w') \<Longrightarrow> pending_wf p"
  using build_wf
  by (auto simp: App_modify_def Let_def split: completion.splits if_splits prod.splits)

lemma start_transform_wf:
  "start_transform tm a w = (Suspended p, a', w') \<Longrightarrow> pending_wf p"
  using build_wf
  by (auto simp: start_transform_def Let_def split: prod.splits)

lemma App_fixedUpdate_wf:
  "App_fixedUpdate dt a w = (Some (Suspended p), a', w') \<Longrightarrow> pending_wf p"
  using crash_wf
  by (auto simp: App_fixedUpdate_def split: if_splits completion.splits prod.splits)

lemma deliver_wf:
  assumes "builds_wf s"
  shows "builds_wf (deliver [] (sys_pending s) act s)"
proof -
  from deliver_cases[of "[]" "sys_pending s" act s] show ?thesis
  proof
    assume "deliver [] (sys_pending s) act s = s"
    with assms show ?thesis by simp
  next
    assume "\<exists>pre p post r a' w'. sys_pending s = pre @ p # post \<and>
      resume p act (sys_app s) (sys_world s) = Some (r, a', w') \<and>
      deliver [] (sys_pending s) act s = settle ([] @ pre @ post) (r, a', w')"
    then obtain pre p post r a' w' where h: "sys_pending s = pre @ p # post"
      "resume p act (sys_app s) (sys_world s) = Some (r, a', w')"
      "deliver [] (sys_pending s) act s = settle (pre @ post) (r, a', w')"
      by auto
    from assms h(1) have wp: "pending_wf p" and rest: "list_all pending_wf (pre @ post)"
      by (simp_all add: builds_wf_def)
    from resume_wf[OF wp] h(2) have "\<forall>p'. r = Suspended p' \<longrightarrow> pending_wf p'" by blast
    from settle_wf[OF rest this] h(3) show ?thesis by simp
  qed
qed

lemma step_wf:
  assumes "builds_wf s"
  shows "builds_wf (step act s)"
proof -
  let ?a = "sys_app s" and ?w = "sys_world s" and ?ps = "sys_pending s"
  from assms have o: "list_all pending_wf ?ps" by (simp add: builds_wf_def)
  have keep: "builds_wf (s\<lparr>sys_app := a', sys_world := w'\<rparr>)" for a' w'
    using o by (simp add: builds_wf_def)
  show ?thesis
  proof (cases act)
    case (ScriptLoaded g res)
    then show ?thesis using deliver_wf[OF assms, of act] by (simp add: step_def)
  next
    case (ModelLoaded g res)
    then show ?thesis using deliver_wf[OF assms, of act] by (simp add: step_def)
  next
    case (CrashBlockLoaded g res)
    then show ?thesis using deliver_wf[OF assms, of act] by (simp add: step_def)
  next
    case (CallBuild crashed)
    obtain r a' w' where b: "build crashed ?a ?w = (r, a', w')" by (cases "build crashed ?a ?w")
    with build_wf[of crashed ?a ?w _ a' w'] have "\<forall>p. r = Suspended p \<longrightarrow> pending_wf p" by simp
    from settle_wf[OF o this] b CallBuild show ?thesis by (simp add: step_def)
  next
    case (Modify u)
    show ?thesis
    proof (cases "App_modify u ?a ?w")
      case (Normal res)
      obtain ro a' w' where res: "res = (ro, a', w')" by (cases res)
      show ?thesis
      proof (cases ro)
        case None
        with Normal res keep Modify show ?thesis by (simp add: step_def)
      next
        case (Some r)
        with App_modify_wf[of u ?a ?w _ a' w'] Normal res
        have "\<forall>p. r = Suspended p \<longrightarrow> pending_wf p" by simp
        from settle_wf[OF o this] Some Normal res Modify show ?thesis by (simp add: step_def)
      qed
    next
      case (Abrupt res)
      obtain ro a' w' where res: "res = (ro, a', w')" by (cases res)
      with Abrupt keep Modify show ?thesis by (simp add: step_def)
    qed
  next
    case (StartTransform tm)
    obtain r a' w' where b: "start_transform tm ?a ?w = (r, a', w')"
      by (cases "start_transform tm ?a ?w")
    with start_transform_wf[of tm ?a ?w _ a' w'] have "\<forall>p. r = Suspended p \<longrightarrow> pending_wf p" by simp
    from settle_wf[OF o this] b StartTransform show ?thesis by (simp add: step_def)
  next
    case (OnEvent v name dat nid)
    show ?thesis
    proof (cases "onEvent v name dat nid ?a ?w")
      case (Normal res)
      obtain a' w' where res: "res = (a', w')" by (cases res)
      with Normal keep OnEvent show ?thesis by (simp add: step_def)
    next
      case (Abrupt res)
      obtain a' w' where res: "res = (a', w')" by (cases res)
      with Abrupt keep OnEvent show ?thesis by (simp add: step_def)
    qed
  next
    case (FixedUpdate dt)
    obtain ro a' w' where f: "App_fixedUpdate dt ?a ?w = (ro, a', w')"
      by (cases "App_fixedUpdate dt ?a ?w")
    show ?thesis
    proof (cases ro)
      case None
      with f keep FixedUpdate show ?thesis by (simp add: step_def)
    next
      case (Some r)
      with App_fixedUpdate_wf[of dt ?a ?w _ a' w'] f
      have "\<forall>p. r = Suspended p \<longrightarrow> pending_wf p" by simp
      from settle_wf[OF o this] Some f FixedUpdate show ?thesis by (simp add: step_def)
    qed
  next
    case (SetBlueprints reg)
    with o show ?thesis by (simp add: step_def builds_wf_def)
  next
    case (SetData d)
    with o show ?thesis by (simp add: step_def builds_wf_def)
  qed
qed

lemma run_wf: "builds_wf s \<Longrightarrow> builds_wf (run acts s)"
  by (induction acts arbitrary: s) (simp_all add: step_wf)

lemma boot_wf: "builds_wf (boot d w)"
proof -
  obtain r a' w' where b: "build False (App_init d) w = (r, a', w')"
    by (cases "build False (App_init d) w")
  with build_wf[of False "App_init d" w _ a' w'] have "\<forall>p. r = Suspended p \<longrightarrow> pending_wf p" by simp
  from settle_wf[OF _ this, of "[]"] b show ?thesis
    by (simp add: boot_def new_App_def)
qed

lemma root_matches_src: "node_src r' = node_src r \<Longrightarrow> root_matches bp r' = root_matches bp r"
  by (simp add: root_matches_def)

lemma not_suspended: "(\<forall>p. r \<noteq> Suspended p) \<Longrightarrow> r = Finished \<or> r = Rejected"
  by (cases r) simp_all

lemma commit_newest:
  assumes "app_n a = t_n t" and "t_root t = Some r0" and "root_matches (t_blueprint t) r0"
    and "build_commit t a w = (r, a', w')"
  shows "installed (t_blueprint t) a' \<and> (app_n a' = app_n a \<longrightarrow> r = Finished \<or> r = Rejected)"
proof -
  from build_commit_installs[OF assms(1,2,4)] obtain r' where
    i: "app_blueprint a' = Some (t_blueprint t)" "app_root a' = Some r'"
       "node_src r' = node_src r0" "node_active r'" by blast
  from root_matches_src[OF i(3), of "t_blueprint t"] assms(3) have "root_matches (t_blueprint t) r'"
    by simp
  with i have 1: "installed (t_blueprint t) a'" by (simp add: installed_def)
  from build_commit_generation[OF assms(4)] have
    "app_n a' = app_n a \<longrightarrow> (\<forall>p. r \<noteq> Suspended p)" by auto
  with not_suspended[of r] have 2: "app_n a' = app_n a \<longrightarrow> r = Finished \<or> r = Rejected" by blast
  from 1 2 show ?thesis by simp
qed

lemma after_model_newest:
  assumes "app_n a = t_n t"
    and "\<forall>r0. t_root t = Some r0 \<longrightarrow> root_matches (t_blueprint t) r0"
    and "build_after_model build_commit t a w = (r, a', w')"
  shows "(r = Suspended (AwaitCrashBlock t) \<and> a' = a) \<or>
         (installed (t_blueprint t) a' \<and> (app_n a' = app_n a \<longrightarrow> r = Finished \<or> r = Rejected))"
proof (cases "t_crashed t \<or> t_root t = None")
  case True
  with assms(3) show ?thesis by (auto simp: build_after_model_def)
next
  case False
  then obtain r0 where r0: "t_root t = Some r0" by auto
  from False r0 assms(3) have c: "build_commit t a w = (r, a', w')"
    by (simp add: build_after_model_def)
  from assms(2) r0 have "root_matches (t_blueprint t) r0" by simp
  from commit_newest[OF assms(1) r0 this c] show ?thesis by simp
qed

lemma after_script_newest:
  assumes "app_n a = t_n t" and "t_root t = None"
    and "build_after_script build_commit t a w = (r, a', w')"
  shows "(\<exists>p'. r = Suspended p' \<and> generation p' = t_n t \<and>
               t_blueprint (task_of p') = t_blueprint t \<and> a' = a) \<or>
         (installed (t_blueprint t) a' \<and> (app_n a' = app_n a \<longrightarrow> r = Finished \<or> r = Rejected))"
proof (cases "uploading_elsewhere (app_data a) w")
  case True
  let ?t = "t\<lparr>t_root := Some loading_box\<rparr>"
  from True assms(3) have m: "build_after_model build_commit ?t a w = (r, a', w')"
    by (simp add: build_after_script_def)
  have "\<forall>r0. t_root ?t = Some r0 \<longrightarrow> root_matches (t_blueprint ?t) r0"
    by (simp add: root_matches_def loading_box_def)
  from after_model_newest[OF _ this m] assms(1) show ?thesis by (auto simp: generation_def)
next
  case False
  show ?thesis
  proof (cases "bp_model (t_blueprint t)")
    case None
    with False assms(3) have
      m: "build_after_model build_commit t a (console_error ''TypeError'' w) = (r, a', w')"
      by (simp add: build_after_script_def)
    from assms(2) have "\<forall>r0. t_root t = Some r0 \<longrightarrow> root_matches (t_blueprint t) r0" by simp
    from after_model_newest[OF assms(1) this m] show ?thesis by (auto simp: generation_def)
  next
    case (Some url)
    with False assms(3) show ?thesis by (auto simp: build_after_script_def generation_def)
  qed
qed

lemma resume_newest:
  assumes "generation p = app_n a" and "pending_wf p" and "resume p act a w = Some (r, a', w')"
  shows "(\<exists>p'. r = Suspended p' \<and> generation p' = generation p \<and>
               t_blueprint (task_of p') = t_blueprint (task_of p) \<and> a' = a) \<or>
         (r = Rejected \<and> a' = a \<and> act = CrashBlockLoaded (generation p) None) \<or>
         (installed (t_blueprint (task_of p)) a' \<and>
          (app_n a' = app_n a \<longrightarrow> r = Finished \<or> r = Rejected))"
proof (cases p)
  case (AwaitScript t)
  with assms(3) obtain g res where rs: "resume_script t res a w = (r, a', w')"
    by (cases act) (auto simp: resume_def split: if_splits)
  from assms(1,2) AwaitScript have n: "app_n a = t_n t" and r0: "t_root t = None"
    by (simp_all add: generation_def)
  show ?thesis
  proof (cases res)
    case None
    let ?t = "t\<lparr>t_crashed := True\<rparr>"
    from None rs have "build_after_script build_commit ?t a (console_error ''err'' w) = (r, a', w')"
      by (simp add: resume_script_def)
    from after_script_newest[OF _ _ this] n r0 AwaitScript show ?thesis
      by (auto simp: generation_def)
  next
    case (Some s)
    let ?t = "t\<lparr>t_script := Some s\<rparr>"
    from Some rs have "build_after_script build_commit ?t a w = (r, a', w')"
      by (simp add: resume_script_def)
    from after_script_newest[OF _ _ this] n r0 AwaitScript show ?thesis
      by (auto simp: generation_def)
  qed
next
  case (AwaitModel url t)
  with assms(3) obtain g res where rs: "resume_model url t res a w = (r, a', w')"
    by (cases act) (auto simp: resume_def split: if_splits)
  from assms(1,2) AwaitModel have n: "app_n a = t_n t" and r0: "t_root t = None"
    and u: "bp_model (t_blueprint t) = Some url"
    by (simp_all add: generation_def)
  show ?thesis
  proof (cases res)
    case None
    with rs have m: "build_after_model build_commit t a (console_error ''err'' w) = (r, a', w')"
      by (simp add: resume_model_def)
    from r0 have "\<forall>r0. t_root t = Some r0 \<longrightarrow> root_matches (t_blueprint t) r0" by simp
    from after_model_newest[OF n this m] AwaitModel show ?thesis by (auto simp: generation_def)
  next
    case (Some gl)
    let ?t = "t\<lparr>t_root := Some (toNodes url gl)\<rparr>"
    from Some rs have m: "build_after_model build_commit ?t a w = (r, a', w')"
      by (simp add: resume_model_def)
    from u have "\<forall>r0. t_root ?t = Some r0 \<longrightarrow> root_matches (t_blueprint ?t) r0"
      by (simp add: root_matches_def toNodes_def)
    from after_model_newest[OF _ this m] n AwaitModel show ?thesis by (auto simp: generation_def)
  qed
next
  case (AwaitCrashBlock t)
  with assms(3) obtain g res where act: "act = CrashBlockLoaded g res" and g: "t_n t = g"
    and rs: "resume_crash_block t res a w = (r, a', w')"
    by (cases act) (auto simp: resume_def split: if_splits)
  from assms(1) AwaitCrashBlock have n: "app_n a = t_n t" by (simp add: generation_def)
  show ?thesis
  proof (cases res)
    case None
    with rs act g AwaitCrashBlock show ?thesis
      by (auto simp: resume_crash_block_def generation_def)
  next
    case (Some gl)
    let ?t = "t\<lparr>t_root := Some (toNodes crash_block_url gl)\<rparr>"
    from Some rs have c: "build_commit ?t a w = (r, a', w')"
      by (simp add: resume_crash_block_def)
    have "root_matches (t_blueprint ?t) (toNodes crash_block_url gl)"
      by (simp add: root_matches_def toNodes_def)
    from commit_newest[OF _ _ this c] n AwaitCrashBlock show ?thesis by auto
  qed
qed

lemma step_load_mono:
  assumes "is_load act"
  shows "app_n (sys_app s) \<le> app_n (sys_app (step act s))"
proof -
  from deliver_cases[of "[]" "sys_pending s" act s] show ?thesis
  proof
    assume "deliver [] (sys_pending s) act s = s"
    with assms show ?thesis by (simp add: step_load)
  next
    assume "\<exists>pre p post r a' w'. sys_pending s = pre @ p # post \<and>
      resume p act (sys_app s) (sys_world s) = Some (r, a', w') \<and>
      deliver [] (sys_pending s) act s = settle ([] @ pre @ post) (r, a', w')"
    then obtain pre p post r a' w' where
      h: "resume p act (sys_app s) (sys_world s) = Some (r, a', w')"
         "deliver [] (sys_pending s) act s = settle (pre @ post) (r, a', w')"
      by auto
    from resume_generation[OF h(1)] h(2) assms show ?thesis by (simp add: step_load settle_simps)
  qed
qed

lemma run_load_mono:
  "list_all is_load ls \<Longrightarrow> app_n (sys_app s) \<le> app_n (sys_app (run ls s))"
proof (induction ls arbitrary: s)
  case Nil
  show ?case by simp
next
  case (Cons act ls)
  from Cons.prems have l: "is_load act" "list_all is_load ls" by simp_all
  from step_load_mono[OF l(1), of s] Cons.IH[OF l(2), of "step act s"] show ?case by simp
qed

lemma loads_keep_superseded:
  "all_superseded s \<Longrightarrow> list_all is_load ls \<Longrightarrow> all_superseded (run ls s)"
proof (induction ls arbitrary: s)
  case Nil
  then show ?case by simp
next
  case (Cons act ls)
  from Cons.prems have l: "is_load act" "list_all is_load ls" by simp_all
  from load_after_settled[OF Cons.prems(1) l(1)] Cons.IH[of "step act s"] l(2)
  show ?case by simp
qed

lemma distinct_map_eq:
  "distinct (map f xs) \<Longrightarrow> x \<in> set xs \<Longrightarrow> y \<in> set xs \<Longrightarrow> f x = f y \<Longrightarrow> x = y"
  by (auto simp: distinct_map dest: inj_onD)

lemma step_newest:
  assumes "builds_ordered s" and "builds_wf s" and "is_load act"
    and "p \<in> set (sys_pending s)" and "generation p = app_n (sys_app s)"
    and "app_n (sys_app (step act s)) = app_n (sys_app s)"
  shows "((\<exists>p' \<in> set (sys_pending (step act s)).
             generation p' = generation p \<and>
             t_blueprint (task_of p') = t_blueprint (task_of p)) \<and>
          sys_app (step act s) = sys_app s) \<or>
         (all_superseded (step act s) \<and>
          installed (t_blueprint (task_of p)) (sys_app (step act s))) \<or>
         (all_superseded (step act s) \<and> sys_app (step act s) = sys_app s \<and>
          act = CrashBlockLoaded (generation p) None)"
proof -
  from assms(1) have d: "distinct (map generation (sys_pending s))"
    by (simp add: builds_ordered_def)
  from deliver_cases[of "[]" "sys_pending s" act s] show ?thesis
  proof
    assume "deliver [] (sys_pending s) act s = s"
    with assms(3) have "step act s = s" by (simp add: step_load)
    with assms(4) show ?thesis by auto
  next
    assume "\<exists>pre p post r a' w'. sys_pending s = pre @ p # post \<and>
      resume p act (sys_app s) (sys_world s) = Some (r, a', w') \<and>
      deliver [] (sys_pending s) act s = settle ([] @ pre @ post) (r, a', w')"
    then obtain pre q post r a' w' where h: "sys_pending s = pre @ q # post"
      "resume q act (sys_app s) (sys_world s) = Some (r, a', w')"
      "deliver [] (sys_pending s) act s = settle (pre @ post) (r, a', w')"
      by auto
    from h(3) assms(3) have st: "step act s = settle (pre @ post) (r, a', w')"
      by (simp add: step_load)
    then have sa: "sys_app (step act s) = a'"
      and sp: "sys_pending (step act s) = (case r of Suspended p \<Rightarrow> (pre @ post) @ [p] | _ \<Rightarrow> pre @ post)"
      by (simp_all add: settle_simps)
    from assms(6) sa have n': "app_n a' = app_n (sys_app s)" by simp
    from d h(1) have nq: "generation q \<notin> generation ` set (pre @ post)" by auto
    have others: "\<forall>x \<in> set (pre @ post). generation x \<noteq> generation q"
    proof
      fix x
      assume "x \<in> set (pre @ post)"
      then have "generation x \<in> generation ` set (pre @ post)" by (rule imageI)
      with nq show "generation x \<noteq> generation q" by metis
    qed
    show ?thesis
    proof (cases "generation q = app_n (sys_app s)")
      case False
      from resume_superseded[OF False h(2)] have a: "a' = sys_app s" by simp
      from False assms(5) have "p \<noteq> q" by auto
      with assms(4) h(1) have "p \<in> set (pre @ post)" by auto
      then have "p \<in> set (sys_pending (step act s))" unfolding sp by (cases r) simp_all
      with a sa show ?thesis by auto
    next
      case True
      from h(1) have "q \<in> set (sys_pending s)" by simp
      from distinct_map_eq[OF d this assms(4)] True assms(5) have q: "q = p" by simp
      from assms(2) assms(4) have wf: "pending_wf p" by (simp add: builds_wf_def list_all_iff)
      from others q assms(5) have sup: "\<forall>x \<in> set (pre @ post). generation x \<noteq> app_n a'"
        using n' by simp
      from resume_newest[OF assms(5) wf] h(2) q
      consider
        (wait) p' where "r = Suspended p'" "generation p' = generation p"
          "t_blueprint (task_of p') = t_blueprint (task_of p)" "a' = sys_app s"
      | (rej) "r = Rejected" "a' = sys_app s" "act = CrashBlockLoaded (generation p) None"
      | (inst) "installed (t_blueprint (task_of p)) a'"
          "app_n a' = app_n (sys_app s) \<longrightarrow> r = Finished \<or> r = Rejected"
        by blast
      then show ?thesis
      proof cases
        case wait
        from wait(1) have "p' \<in> set (sys_pending (step act s))" unfolding sp by simp
        with wait(2,3,4) sa show ?thesis by auto
      next
        case rej
        from rej(1) sup sa have "all_superseded (step act s)"
          unfolding all_superseded_def sp by simp
        with rej(2,3) sa show ?thesis by simp
      next
        case inst
        from inst(2) n' have "r = Finished \<or> r = Rejected" by simp
        with sup sa have "all_superseded (step act s)"
          unfolding all_superseded_def sp by auto
        with inst(1) sa show ?thesis by simp
      qed
    qed
  qed
qed

lemma run_newest:
  assumes "builds_ordered s" and "builds_wf s" and "list_all is_load ls"
    and "p \<in> set (sys_pending s)" and "generation p = app_n (sys_app s)"
    and "app_n (sys_app (run ls s)) = app_n (sys_app s)"
  shows "((\<exists>p' \<in> set (sys_pending (run ls s)).
             generation p' = generation p \<and>
             t_blueprint (task_of p') = t_blueprint (task_of p)) \<and>
          sys_app (run ls s) = sys_app s) \<or>
         (all_superseded (run ls s) \<and>
          installed (t_blueprint (task_of p)) (sys_app (run ls s))) \<or>
         (all_superseded (run ls s) \<and> sys_app (run ls s) = sys_app s \<and>
          CrashBlockLoaded (generation p) None \<in> set ls)"
  using assms
proof (induction ls arbitrary: s p)
  case Nil
  then show ?case by auto
next
  case (Cons act ls)
  let ?s1 = "step act s"
  from Cons.prems(3) have l: "is_load act" "list_all is_load ls" by simp_all
  from step_load_mono[OF l(1), of s] run_load_mono[OF l(2), of ?s1] Cons.prems(6)
  have n1: "app_n (sys_app ?s1) = app_n (sys_app s)"
    and n2: "app_n (sys_app (run ls ?s1)) = app_n (sys_app ?s1)" by simp_all
  have o1: "builds_ordered ?s1" using step_ordered[OF Cons.prems(1)] .
  have w1: "builds_wf ?s1" using step_wf[OF Cons.prems(2)] .
  from step_newest[OF Cons.prems(1,2) l(1) Cons.prems(4,5) n1]
  consider
    (wait) p1 where "p1 \<in> set (sys_pending ?s1)" "generation p1 = generation p"
      "t_blueprint (task_of p1) = t_blueprint (task_of p)" "sys_app ?s1 = sys_app s"
  | (inst) "all_superseded ?s1" "installed (t_blueprint (task_of p)) (sys_app ?s1)"
  | (rej) "all_superseded ?s1" "sys_app ?s1 = sys_app s" "act = CrashBlockLoaded (generation p) None"
    by blast
  then show ?case
  proof cases
    case wait
    from wait(2) Cons.prems(5) n1 have g1: "generation p1 = app_n (sys_app ?s1)" by simp
    from Cons.IH[OF o1 w1 l(2) wait(1) g1 n2] wait(2,3,4) show ?thesis by auto
  next
    case inst
    from loads_after_settled[OF inst(1) l(2)] loads_keep_superseded[OF inst(1) l(2)] inst(2)
    show ?thesis by simp
  next
    case rej
    from loads_after_settled[OF rej(1) l(2)] loads_keep_superseded[OF rej(1) l(2)] rej(2,3)
    show ?thesis by simp
  qed
qed

lemmas ex_run_defs = boot_def settle_def step_def resume_def App_modify_def modify_position_def
  modify_quaternion_def modify_keys_def modify_rest_def wants_rebuild_def ex_overlap_def
  ex_switch_def ex_two_world_def pushArray_def

section \<open>The claims\<close>

lemmas ex_defs = new_App_def build_def build_begin_def build_after_script_def build_after_model_def
  build_commit_def build_finish_def resume_model_def unbuild_eq
  uploading_elsewhere_def build_mode_def truthy_def setHot_def toNodes_def new_lerp_def
  App_init_def ex_built_def ex_data_def ex_world_def ex_bp_def ex_glb_def ex_task_def ex_app_def

subsection \<open>C1: deferred events\<close>




subsection \<open>C2: overlapping builds\<close>

text \<open>
  C2, as stated, fails.  An app built from blueprint \<open>bp1\<close> is switched to \<open>B1\<close> and at once
  to \<open>B2\<close>.  The model of \<open>B2\<close>, the latest blueprint requested, fails to load, and so
  does the crash block: the newest build is rejected before its generation check.  The
  model of \<open>B1\<close> then arrives for the superseded build, which returns.  No build is in
  flight any more, the data name \<open>B2\<close>, and the active root is still the model of \<open>bp1\<close>:
  it does not correspond to the latest requested blueprint.
\<close>

theorem C2_counterexample:
  "sys_pending ex_failed = [] \<and>
   d_blueprint (app_data (sys_app ex_failed)) = ''B2'' \<and>
   map_option bp_id (app_blueprint (sys_app ex_failed)) = Some ''bp1'' \<and>
   map_option node_src (app_root (sys_app ex_failed)) = Some (Glb ''asset://m.glb'') \<and>
   map_option node_active (app_root (sys_app ex_failed)) = Some True \<and>
   app_building (sys_app ex_failed)"
  by (simp add: ex_failed_def ex_defs ex_run_defs resume_crash_block_def Let_def)

text \<open>
  C2, amended.  A call of \<open>build\<close> that has to wait holds the incremented counter as its
  generation.  When the loader answers a build whose generation is no longer the counter,
  the build goes on to its next wait or returns, and in either case leaves the app as it
  is and the world as it is but for console lines: no unbuild, no mode, root or blueprint
  change, no activation.  A build that reaches the generation check with the current
  generation installs its own blueprint and activates its own root.  Along every run from
  the constructor no build in flight is newer than the counter and no two share a
  generation, so only the newest can pass the check; and once no build in flight has the
  current generation, whatever the loader still answers changes neither the app nor the
  world (console lines apart).  A build whose blueprint is not registered is rejected at
  once, with the counter incremented and nothing else changed.  So after overlapping
  builds, as long as no further build is started, whatever the loader answers leaves one
  of three: the newest build still waits and the app is as it was; or the newest build has
  passed the check, no build in flight has the current generation, its blueprint is the
  current one and the active root is the one it made for that blueprint (the blueprint's
  model, the loading box or the crash block); or the newest build was rejected because
  its crash block failed to load, no build in flight has the current generation, and the
  app is as it was, with the root of the earlier build.
\<close>

theorem C2_build_generations:
  "(build crashed a w = (Suspended p, a', w') \<longrightarrow>
      generation p = app_n a' \<and> app_n a < app_n a') \<and>
   (generation q \<noteq> app_n b \<and> resume q act b v = Some (r, b', v') \<longrightarrow>
      b' = b \<and> silent v' = silent v \<and>
      (r = Finished \<or> r = Rejected \<or> (\<exists>q'. r = Suspended q' \<and> generation q' = generation q))) \<and>
   (app_n c = t_n t \<and> t_root t = Some r0 \<and> build_commit t c u = (res, c', u') \<longrightarrow>
      app_blueprint c' = Some (t_blueprint t) \<and>
      (\<exists>r'. app_root c' = Some r' \<and> node_src r' = node_src r0 \<and> node_active r')) \<and>
   builds_ordered (run acts (boot d wb)) \<and>
   (all_superseded (run acts (boot d wb)) \<and> list_all is_load ls \<longrightarrow>
      sys_app (run ls (run acts (boot d wb))) = sys_app (run acts (boot d wb)) \<and>
      silent (sys_world (run ls (run acts (boot d wb)))) = silent (sys_world (run acts (boot d wb)))) \<and>
   (w_blueprints w (d_blueprint (app_data a)) = None \<longrightarrow>
      build crashed a w = (Rejected, a\<lparr>app_building := True, app_n := app_n a + 1\<rparr>, w)) \<and>
   (n \<in> set (sys_pending (run acts (boot d wb))) \<and>
    generation n = app_n (sys_app (run acts (boot d wb))) \<and> list_all is_load ls \<and>
    app_n (sys_app (run ls (run acts (boot d wb)))) = app_n (sys_app (run acts (boot d wb))) \<longrightarrow>
      ((\<exists>n' \<in> set (sys_pending (run ls (run acts (boot d wb)))).
          generation n' = generation n \<and> t_blueprint (task_of n') = t_blueprint (task_of n)) \<and>
       sys_app (run ls (run acts (boot d wb))) = sys_app (run acts (boot d wb))) \<or>
      (all_superseded (run ls (run acts (boot d wb))) \<and>
       installed (t_blueprint (task_of n)) (sys_app (run ls (run acts (boot d wb))))) \<or>
      (all_superseded (run ls (run acts (boot d wb))) \<and>
       sys_app (run ls (run acts (boot d wb))) = sys_app (run acts (boot d wb)) \<and>
       CrashBlockLoaded (generation n) None \<in> set ls))"
proof -
  let ?s = "run acts (boot d wb)"
  have 1: "build crashed a w = (Suspended p, a', w') \<longrightarrow>
      generation p = app_n a' \<and> app_n a < app_n a'"
    using build_generation[of crashed a w "Suspended p" a' w'] by simp
  have 2: "generation q \<noteq> app_n b \<and> resume q act b v = Some (r, b', v') \<longrightarrow>
      b' = b \<and> silent v' = silent v \<and>
      (r = Finished \<or> r = Rejected \<or> (\<exists>q'. r = Suspended q' \<and> generation q' = generation q))"
    using resume_superseded[of q b act v r b' v'] by blast
  have 3: "app_n c = t_n t \<and> t_root t = Some r0 \<and> build_commit t c u = (res, c', u') \<longrightarrow>
      app_blueprint c' = Some (t_blueprint t) \<and>
      (\<exists>r'. app_root c' = Some r' \<and> node_src r' = node_src r0 \<and> node_active r')"
    using build_commit_installs[of c t r0 u res c' u'] by blast
  have 4: "builds_ordered ?s"
    using run_ordered[OF boot_ordered] .
  have 5: "all_superseded ?s \<and> list_all is_load ls \<longrightarrow>
      sys_app (run ls ?s) = sys_app ?s \<and> silent (sys_world (run ls ?s)) = silent (sys_world ?s)"
    using loads_after_settled[of ?s ls] by blast
  have 6: "w_blueprints w (d_blueprint (app_data a)) = None \<longrightarrow>
      build crashed a w = (Rejected, a\<lparr>app_building := True, app_n := app_n a + 1\<rparr>, w)"
    by (simp add: build_def build_begin_def Let_def)
  have 7: "n \<in> set (sys_pending ?s) \<and> generation n = app_n (sys_app ?s) \<and> list_all is_load ls \<and>
    app_n (sys_app (run ls ?s)) = app_n (sys_app ?s) \<longrightarrow>
      ((\<exists>n' \<in> set (sys_pending (run ls ?s)).
          generation n' = generation n \<and> t_blueprint (task_of n') = t_blueprint (task_of n)) \<and>
       sys_app (run ls ?s) = sys_app ?s) \<or>
      (all_superseded (run ls ?s) \<and> installed (t_blueprint (task_of n)) (sys_app (run ls ?s))) \<or>
      (all_superseded (run ls ?s) \<and> sys_app (run ls ?s) = sys_app ?s \<and>
       CrashBlockLoaded (generation n) None \<in> set ls)"
    using run_newest[OF 4 run_wf[OF boot_wf], of ls n] by blast
  from 1 2 3 4 5 6 7 show ?thesis by blast
qed

theorem C2_build_generations_witness:
  "map generation (sys_pending (run ex_overlap (boot ex_data ex_two_world))) = [2, 3] \<and>
   app_n (sys_app (run ex_overlap (boot ex_data ex_two_world))) = 3 \<and>
   sys_app (run (ex_overlap @ [ModelLoaded 2 (Some ex_glb)]) (boot ex_data ex_two_world)) =
     sys_app (run ex_overlap (boot ex_data ex_two_world)) \<and>
   map_option node_src (app_root (sys_app
       (run (ex_overlap @ [ModelLoaded 2 (Some ex_glb), ModelLoaded 3 (Some ex_glb)])
            (boot ex_data ex_two_world)))) = Some (Glb ''asset://b2.glb'') \<and>
   map_option node_src (app_root (sys_app
       (run ([ModelLoaded 2 (Some ex_glb)]) (run (ex_overlap @ [ModelLoaded 3 (Some ex_glb)])
            (boot ex_data ex_two_world))))) = Some (Glb ''asset://b2.glb'') \<and>
   map_option bp_id (app_blueprint (sys_app
       (run ([ModelLoaded 2 (Some ex_glb)]) (run (ex_overlap @ [ModelLoaded 3 (Some ex_glb)])
            (boot ex_data ex_two_world))))) = Some ''B2'' \<and>
   installed ex_b2 (sys_app
       (run [ModelLoaded 2 (Some ex_glb), ModelLoaded 3 (Some ex_glb)]
            (run ex_overlap (boot ex_data ex_two_world)))) \<and>
   all_superseded
       (run [ModelLoaded 2 (Some ex_glb), ModelLoaded 3 (Some ex_glb)]
            (run ex_overlap (boot ex_data ex_two_world))) \<and>
   sys_app (run [ModelLoaded 3 None, CrashBlockLoaded 3 None]
              (run ex_overlap (boot ex_data ex_two_world))) =
     sys_app (run ex_overlap (boot ex_data ex_two_world))"
proof -
  let ?s = "run ex_overlap (boot ex_data ex_two_world)"
  let ?s3 = "run (ex_overlap @ [ModelLoaded 3 (Some ex_glb)]) (boot ex_data ex_two_world)"
  let ?ok = "[ModelLoaded 2 (Some ex_glb), ModelLoaded 3 (Some ex_glb)]"
  let ?ko = "[ModelLoaded 3 None, CrashBlockLoaded 3 None]"
  have g: "map generation (sys_pending ?s) = [2, 3]" "app_n (sys_app ?s) = 3"
    by (simp_all add: ex_defs ex_run_defs generation_def Let_def)
  have a: "sys_app (run (ex_overlap @ [ModelLoaded 2 (Some ex_glb)]) (boot ex_data ex_two_world)) =
     sys_app ?s"
    by (simp add: ex_defs ex_run_defs Let_def)
  have b: "map_option node_src (app_root (sys_app
       (run (ex_overlap @ [ModelLoaded 2 (Some ex_glb), ModelLoaded 3 (Some ex_glb)])
            (boot ex_data ex_two_world)))) = Some (Glb ''asset://b2.glb'')"
    by (simp add: ex_defs ex_run_defs Let_def)
  have sup: "all_superseded ?s3"
    by (simp add: all_superseded_def generation_def ex_defs ex_run_defs Let_def)
  have l: "list_all is_load [ModelLoaded 2 (Some ex_glb)]" by (simp add: is_load_def)
  have r3: "map_option node_src (app_root (sys_app ?s3)) = Some (Glb ''asset://b2.glb'')"
    "map_option bp_id (app_blueprint (sys_app ?s3)) = Some ''B2''"
    by (simp_all add: ex_defs ex_run_defs Let_def)
  note T5 = C2_build_generations[where acts = "ex_overlap @ [ModelLoaded 3 (Some ex_glb)]"
        and d = ex_data and wb = ex_two_world and ls = "[ModelLoaded 2 (Some ex_glb)]",
        THEN conjunct2, THEN conjunct2, THEN conjunct2, THEN conjunct2, THEN conjunct1]
  from T5[THEN mp, OF conjI[OF sup l]]
  have c: "sys_app (run [ModelLoaded 2 (Some ex_glb)] ?s3) = sys_app ?s3" by (rule conjunct1)
  have nw: "ex_newest \<in> set (sys_pending ?s)" "generation ex_newest = app_n (sys_app ?s)"
    "t_blueprint (task_of ex_newest) = ex_b2"
    by (simp_all add: ex_newest_def ex_b2_def generation_def ex_defs ex_run_defs Let_def)
  have lo: "list_all is_load ?ok" "list_all is_load ?ko" by (simp_all add: is_load_def)
  have n1: "app_n (sys_app (run ?ok ?s)) = app_n (sys_app ?s)"
    and ch: "app_blueprint (sys_app (run ?ok ?s)) \<noteq> app_blueprint (sys_app ?s)"
    by (simp_all add: ex_defs ex_run_defs Let_def)
  have n2: "app_n (sys_app (run ?ko ?s)) = app_n (sys_app ?s)"
    and gone: "sys_pending (run ?ko ?s) = [AwaitModel ''asset://b1.glb''
        \<lparr>t_n = 2,
         t_blueprint = \<lparr>bp_id = ''B1'', bp_version = 0, bp_model = Some ''asset://b1.glb'',
                        bp_script = None\<rparr>,
         t_crashed = False, t_script = None, t_root = None\<rparr>]"
    and same: "app_blueprint (sys_app (run ?ko ?s)) = app_blueprint (sys_app ?s)"
    by (simp_all add: ex_defs ex_run_defs resume_crash_block_def Let_def)
  from ch have ne: "sys_app (run ?ok ?s) \<noteq> sys_app ?s" by metis
  note T7 = C2_build_generations[where acts = ex_overlap and d = ex_data and wb = ex_two_world
        and n = ex_newest and ls = ?ok,
        THEN conjunct2, THEN conjunct2, THEN conjunct2, THEN conjunct2, THEN conjunct2,
        THEN conjunct2]
  note T8 = C2_build_generations[where acts = ex_overlap and d = ex_data and wb = ex_two_world
        and n = ex_newest and ls = ?ko,
        THEN conjunct2, THEN conjunct2, THEN conjunct2, THEN conjunct2, THEN conjunct2,
        THEN conjunct2]
  from T7[THEN mp, OF conjI[OF nw(1) conjI[OF nw(2) conjI[OF lo(1) n1]]]] ne
  have "all_superseded (run ?ok ?s) \<and>
        installed (t_blueprint (task_of ex_newest)) (sys_app (run ?ok ?s))" by blast
  then have i: "all_superseded (run ?ok ?s) \<and> installed ex_b2 (sys_app (run ?ok ?s))"
    unfolding nw(3) .
  have ni: "\<not> installed ex_b2 (sys_app (run ?ko ?s))"
    unfolding installed_def same by (simp add: ex_b2_def ex_defs ex_run_defs Let_def)
  have nn: "\<not> (\<exists>n' \<in> set (sys_pending (run ?ko ?s)). generation n' = generation ex_newest \<and>
              t_blueprint (task_of n') = t_blueprint (task_of ex_newest))"
    unfolding gone by (simp add: generation_def ex_newest_def)
  from T8[THEN mp, OF conjI[OF nw(1) conjI[OF nw(2) conjI[OF lo(2) n2]]]] nn
    ni[folded nw(3)]
  have k: "sys_app (run ?ko ?s) = sys_app ?s" by blast
  from g a b r3 c i k show ?thesis by simp
qed

subsection \<open>C3: a listener that throws\<close>

text \<open>
  C3, as stated, fails.  An active app has two \<open>fixedUpdate\<close> listeners, registered by its
  script in the order 1, 2; listener 1 throws.  \<open>fixedUpdate\<close> calls listener 1 and never
  listener 2: \<open>emit\<close> has no \<open>try\<close> of its own, the throw leaves its loop, and the \<open>try\<close>
  in \<open>fixedUpdate\<close> answers with \<open>crash()\<close>, which starts a build.
\<close>

theorem C3_counterexample:
  "(case ex_scripted [] of
      (res, a, w) \<Rightarrow>
        res = Finished \<and> app_mode a = Some ACTIVE \<and>
        map_option (map cb_id) (app_listeners a ''fixedUpdate'') = Some [1, 2] \<and>
        (case App_fixedUpdate (1 / 50) a w of
           (started, a', w') \<Rightarrow>
             map fst (w_invoked w') = [1] \<and> started \<noteq> None \<and> app_n a' = app_n a + 1))"
  by (simp add: ex_defs ex_script_defs Let_def)

text \<open>
  C3, amended.  \<open>emit\<close> calls the listeners of an event in registration order up to and
  including the first one that throws, and no listener after it; it throws exactly when
  some listener does.  In \<open>fixedUpdate\<close> of an active app with a script the throw is caught
  and logged and \<open>crash()\<close> is called, which starts a build with the crashed flag; when no
  listener throws, every listener is called and no build is started.
\<close>

theorem C3_listener_throw:
  assumes "app_listeners a name = Some cs"
  shows "emit name a1 a2 a w =
           (if \<exists>c \<in> set cs. cb_throws c a1 a2 then Abrupt else Normal)
             (w\<lparr>w_invoked := w_invoked w @
                  map (\<lambda>c. (cb_id c, a1, a2))
                    (takeWhile (\<lambda>c. \<not> cb_throws c a1 a2) cs @
                     take 1 (dropWhile (\<lambda>c. \<not> cb_throws c a1 a2) cs))\<rparr>) \<and>
         (app_mode a = Some ACTIVE \<and> app_script a \<noteq> None \<and> name = ''fixedUpdate'' \<and>
          a1 = JNum dt \<and> a2 = JUndefined \<longrightarrow>
            App_fixedUpdate dt a w =
              (if \<exists>c \<in> set cs. cb_throws c a1 a2
               then (case crash a (console_error ''err'' (console_error ''script fixedUpdate crashed''
                                 (w\<lparr>w_invoked := w_invoked w @ calls_made cs a1 a2\<rparr>))) of
                       (r, a', w') \<Rightarrow> (Some r, a', w'))
               else (None, a, w\<lparr>w_invoked := w_invoked w @ map (\<lambda>c. (cb_id c, a1, a2)) cs\<rparr>)))"
proof -
  have e: "emit name a1 a2 a w =
           (if \<exists>c \<in> set cs. cb_throws c a1 a2 then Abrupt else Normal)
             (w\<lparr>w_invoked := w_invoked w @ calls_made cs a1 a2\<rparr>)"
    using assms by (simp add: emit_def call_all_eq)
  then have first: "emit name a1 a2 a w =
           (if \<exists>c \<in> set cs. cb_throws c a1 a2 then Abrupt else Normal)
             (w\<lparr>w_invoked := w_invoked w @
                  map (\<lambda>c. (cb_id c, a1, a2))
                    (takeWhile (\<lambda>c. \<not> cb_throws c a1 a2) cs @
                     take 1 (dropWhile (\<lambda>c. \<not> cb_throws c a1 a2) cs))\<rparr>)"
    by (simp only: calls_made_eq)
  have second: "App_fixedUpdate dt a w =
              (if \<exists>c \<in> set cs. cb_throws c a1 a2
               then (case crash a (console_error ''err'' (console_error ''script fixedUpdate crashed''
                                 (w\<lparr>w_invoked := w_invoked w @ calls_made cs a1 a2\<rparr>))) of
                       (r, a', w') \<Rightarrow> (Some r, a', w'))
               else (None, a, w\<lparr>w_invoked := w_invoked w @ map (\<lambda>c. (cb_id c, a1, a2)) cs\<rparr>))"
    if h: "app_mode a = Some ACTIVE" "app_script a \<noteq> None" "name = ''fixedUpdate''"
          "a1 = JNum dt" "a2 = JUndefined"
  proof (cases "\<exists>c \<in> set cs. cb_throws c a1 a2")
    case True
    with e h show ?thesis by (simp add: App_fixedUpdate_def)
  next
    case False
    with e h calls_made_all[OF False] show ?thesis by (simp add: App_fixedUpdate_def)
  qed
  from first second show ?thesis by blast
qed

theorem C3_listener_throw_witness:
  "emit ''fixedUpdate'' (JNum (1 / 50)) JUndefined (fst (snd (ex_scripted []))) ex_world =
     Abrupt (ex_world\<lparr>w_invoked := [(1, JNum (1 / 50), JUndefined)]\<rparr>) \<and>
   fst (App_fixedUpdate (1 / 50) (fst (snd (ex_scripted []))) ex_world) \<noteq> None"
proof -
  let ?a = "fst (snd (ex_scripted []))"
  let ?cs = "[Callback 1 (\<lambda>a1 a2. True), Callback 2 (\<lambda>a1 a2. False)]"
  have l: "app_listeners ?a ''fixedUpdate'' = Some ?cs"
    by (simp add: ex_defs ex_script_defs Let_def)
  have m: "app_mode ?a = Some ACTIVE" "app_script ?a \<noteq> None"
    by (simp_all add: ex_defs ex_script_defs Let_def)
  from C3_listener_throw[OF l, of "JNum (1 / 50)" JUndefined ex_world "1 / 50"] m
  have "emit ''fixedUpdate'' (JNum (1 / 50)) JUndefined ?a ex_world =
          Abrupt (ex_world\<lparr>w_invoked := w_invoked ex_world @ [(1, JNum (1 / 50), JUndefined)]\<rparr>)"
    and "App_fixedUpdate (1 / 50) ?a ex_world =
          (case crash ?a (console_error ''err'' (console_error ''script fixedUpdate crashed''
                 (ex_world\<lparr>w_invoked := w_invoked ex_world @ [(1, JNum (1 / 50), JUndefined)]\<rparr>))) of
             (r, a', w') \<Rightarrow> (Some r, a', w'))"
    by simp_all
  then show ?thesis
    by (simp add: ex_world_def split: prod.splits)
qed

subsection \<open>C4: the mode of a completed build\<close>

text \<open>
  C4, as stated, fails.  An app that another client is moving (\<open>data.mover\<close> is set and is
  not the local network id, no uploader) is built into MOVING, where the claim's rule gives
  ACTIVE: the source tests \<open>if (this.data.mover)\<close>, not equality with the local id.
\<close>

theorem C4_counterexample:
  "(case ex_built ex_moved_by_other ex_world of
      (res, a, w) \<Rightarrow>
        res = Finished \<and> app_mode a = Some MOVING \<and> claimed_mode (app_data a) w = ACTIVE)"
  by (simp add: ex_defs ex_moved_by_other_def claimed_mode_def)

text \<open>
  C4, amended.  For every build that passes the generation check and completes, the mode
  is LOADING if an uploader is set and is not the local network id; otherwise, if a mover
  is set (the local client or any other), ROTATING, SCALING or MOVING as the transform
  mode is 'rotate', 'scale' or anything else; otherwise ACTIVE.  The root is activated,
  with physics enabled if and only if no mover is set.
\<close>

theorem C4_build_mode:
  assumes "build_commit t a w = (Finished, a', w')" and "app_n a = t_n t"
  shows "app_mode a' =
           Some (if uploading_elsewhere (app_data a) w then LOADING
                 else if truthy (d_mover (app_data a))
                      then (if d_transformMode (app_data a) = Some ''rotate'' then ROTATING
                            else if d_transformMode (app_data a) = Some ''scale'' then SCALING
                            else MOVING)
                      else ACTIVE) \<and>
         (\<exists>r. app_root a' = Some r \<and> node_active r \<and>
              node_physics r = (\<not> truthy (d_mover (app_data a))))"
proof -
  obtain a1 w1 where u: "unbuild a w = (a1, w1)" by (cases "unbuild a w")
  then have a1: "app_data a1 = app_data a" and w1: "w_networkId w1 = w_networkId w"
    by (auto simp: unbuild_eq)
  have up: "uploading_elsewhere (app_data a) w1 = uploading_elsewhere (app_data a) w"
    using w1 by (simp add: uploading_elsewhere_def)
  let ?m = "build_mode (app_data a) w1"
  let ?a2 = "a1\<lparr>app_mode := Some ?m, app_blueprint := Some (t_blueprint t)\<rparr>"
  from assms u obtain r where r: "t_root t = Some r"
    by (cases "t_root t") (auto simp: build_commit_def a1 Let_def)
  let ?r1 = "r\<lparr>node_position := d_position (app_data a), node_quaternion := d_quaternion (app_data a),
                node_scale := (case d_scale (app_data a) of None \<Rightarrow> node_scale r | Some s \<Rightarrow> s),
                node_active := True, node_physics := \<not> truthy (d_mover (app_data a))\<rparr>"
  let ?a3 = "?a2\<lparr>app_root := Some ?r1\<rparr>"
  have goal: "app_mode a' = Some ?m \<and> app_root a' = Some ?r1"
  proof (cases "\<exists>s. t_script t = Some s \<and> ?m = ACTIVE \<and> \<not> t_crashed t")
    case True
    then obtain s where s: "t_script t = Some s" "?m = ACTIVE" "\<not> t_crashed t" by blast
    let ?a4 = "?a3\<lparr>app_abortController := Some (), app_script := Some s\<rparr>"
    show ?thesis
    proof (cases "exec (script_ops s) ?a4 w1")
      case (Normal p)
      obtain a5 w5 where p: "p = (a5, w5)" by (cases p)
      with Normal have "script_untouched ?a4 a5" using exec_untouched by blast
      then have f: "app_mode a5 = Some ?m" "app_root a5 = Some ?r1"
        by (simp_all add: script_untouched_def)
      from assms u r s Normal p have "build_finish t ?r1 a5 w5 = (Finished, a', w')"
        by (simp add: build_commit_def a1 Let_def)
      from build_finish_fields[OF this] f show ?thesis by simp
    next
      case (Abrupt p)
      obtain a5 w5 where p: "p = (a5, w5)" by (cases p)
      from assms u r s Abrupt p have
        "crash a5 (console_error ''err'' (console_error ''script crashed'' w5)) = (Finished, a', w')"
        by (simp add: build_commit_def a1 Let_def)
      from crash_result[OF this] show ?thesis by simp
    qed
  next
    case False
    with assms u r have "build_finish t ?r1 ?a3 w1 = (Finished, a', w')"
      by (auto simp: build_commit_def a1 Let_def split: option.splits if_splits)
    from build_finish_fields[OF this] show ?thesis by simp
  qed
  then show ?thesis by (simp add: build_mode_def up Let_def)
qed

theorem C4_build_mode_witness:
  "app_mode (fst (snd (build_commit ex_task (ex_app ex_moved_by_other) ex_world))) = Some MOVING \<and>
   (\<exists>r. app_root (fst (snd (build_commit ex_task (ex_app ex_moved_by_other) ex_world))) = Some r \<and>
        node_active r \<and> \<not> node_physics r)"
proof -
  obtain res a' w' where e: "build_commit ex_task (ex_app ex_moved_by_other) ex_world = (res, a', w')"
    by (cases "build_commit ex_task (ex_app ex_moved_by_other) ex_world")
  then have "res = Finished"
    by (simp add: ex_defs ex_moved_by_other_def)
  with e have f: "build_commit ex_task (ex_app ex_moved_by_other) ex_world = (Finished, a', w')"
    by simp
  have n: "app_n (ex_app ex_moved_by_other) = t_n ex_task"
    by (simp add: ex_app_def ex_task_def)
  from C4_build_mode[OF f n] have
    "app_mode a' = Some MOVING \<and> (\<exists>r. app_root a' = Some r \<and> node_active r \<and> \<not> node_physics r)"
    by (simp add: ex_app_def App_init_def ex_moved_by_other_def ex_data_def ex_world_def
        uploading_elsewhere_def truthy_def)
  then show ?thesis by (simp add: f)
qed

subsection \<open>C5: inbound packets\<close>

text \<open>
  C5.  A packet that arrives is decoded and appended to the queue; nothing is dispatched
  and the world is not touched (a frame that does not decode throws and queues nothing).
  \<open>preFixedUpdate\<close> flushes: it takes the queued packets in arrival order, runs the
  handler of each packet that has one on the world its predecessors left, reports a throw
  and goes on, and leaves the queue empty.  When the handler of one packet throws, the
  packets behind it are processed just as a flush of them alone would, from the world the
  throw left.  In a run of the client, whatever arrives between one head of a frame and
  the next, also amid the phases, stays queued with no handler called, the world being
  changed by the phases alone; at the head of a frame, before its fixed phase, every
  packet that has arrived has been dispatched, in arrival order.
\<close>

theorem C5_packet_queue:
  "(rd frame = Some (m, d) \<longrightarrow>
      onPacket rd frame c = Normal (c\<lparr>cn_queue := cn_queue c @ [(m, d)]\<rparr>)) \<and>
   (rd frame = None \<longrightarrow> onPacket rd frame c = Abrupt c) \<and>
   preFixedUpdate H c =
     c\<lparr>cn_queue := [],
       cn_world := fst (spec_drain H (cn_world c, cn_errors c) (cn_queue c)),
       cn_dispatched := cn_dispatched c @ handled H (cn_queue c),
       cn_errors := snd (spec_drain H (cn_world c, cn_errors c) (cn_queue c))\<rparr> \<and>
   (cn_queue c = q1 @ (m, d) # q2 \<and> H m = Handler h \<and>
    h d (cn_world (preFixedUpdate H (c\<lparr>cn_queue := q1\<rparr>))) = Abrupt w2 \<longrightarrow>
      preFixedUpdate H c =
        preFixedUpdate H
          ((preFixedUpdate H (c\<lparr>cn_queue := q1\<rparr>))
             \<lparr>cn_queue := q2, cn_world := w2,
              cn_dispatched := cn_dispatched (preFixedUpdate H (c\<lparr>cn_queue := q1\<rparr>)) @ [(m, d)],
              cn_errors := cn_errors (preFixedUpdate H (c\<lparr>cn_queue := q1\<rparr>)) + 1\<rparr>)) \<and>
   (FrameHead \<notin> set steps \<longrightarrow>
      cn_dispatched (client_run rd H P steps c) = cn_dispatched c \<and>
      cn_errors (client_run rd H P steps c) = cn_errors c \<and>
      cn_queue (client_run rd H P steps c) = cn_queue c @ arrived rd steps \<and>
      cn_world (client_run rd H P steps c) = run_phases P (phases_of steps) (cn_world c)) \<and>
   cn_queue (client_run rd H P (steps @ [FrameHead]) c) = [] \<and>
   cn_dispatched (client_run rd H P (steps @ [FrameHead]) c) =
     cn_dispatched c @ handled H (cn_queue c @ arrived rd steps)"
proof -
  have 1: "rd frame = Some (m, d) \<longrightarrow>
      onPacket rd frame c = Normal (c\<lparr>cn_queue := cn_queue c @ [(m, d)]\<rparr>)"
    and 2: "rd frame = None \<longrightarrow> onPacket rd frame c = Abrupt c"
    by (simp_all add: onPacket_def enqueue_def)
  have 3: "preFixedUpdate H c =
     c\<lparr>cn_queue := [],
       cn_world := fst (spec_drain H (cn_world c, cn_errors c) (cn_queue c)),
       cn_dispatched := cn_dispatched c @ handled H (cn_queue c),
       cn_errors := snd (spec_drain H (cn_world c, cn_errors c) (cn_queue c))\<rparr>"
    unfolding preFixedUpdate_def flush_def by (rule flush_loop_eq)
  have 4: "cn_queue c = q1 @ (m, d) # q2 \<and> H m = Handler h \<and>
    h d (cn_world (preFixedUpdate H (c\<lparr>cn_queue := q1\<rparr>))) = Abrupt w2 \<longrightarrow>
      preFixedUpdate H c =
        preFixedUpdate H
          ((preFixedUpdate H (c\<lparr>cn_queue := q1\<rparr>))
             \<lparr>cn_queue := q2, cn_world := w2,
              cn_dispatched := cn_dispatched (preFixedUpdate H (c\<lparr>cn_queue := q1\<rparr>)) @ [(m, d)],
              cn_errors := cn_errors (preFixedUpdate H (c\<lparr>cn_queue := q1\<rparr>)) + 1\<rparr>)"
  proof (intro impI, elim conjE)
    let ?c1 = "flush_loop H q1 c"
    assume q: "cn_queue c = q1 @ (m, d) # q2" and h: "H m = Handler h"
      and t: "h d (cn_world (preFixedUpdate H (c\<lparr>cn_queue := q1\<rparr>))) = Abrupt w2"
    have e: "preFixedUpdate H (c\<lparr>cn_queue := q1\<rparr>) = ?c1"
      by (simp add: preFixedUpdate_def flush_def flush_loop_eq)
    from t have t': "h d (cn_world ?c1) = Abrupt w2" unfolding e .
    have "preFixedUpdate H c = flush_loop H ((m, d) # q2) ?c1"
      unfolding preFixedUpdate_def flush_def q by (rule flush_loop_append)
    also have "\<dots> = flush_loop H q2 (?c1\<lparr>cn_queue := q2, cn_world := w2,
            cn_dispatched := cn_dispatched ?c1 @ [(m, d)], cn_errors := cn_errors ?c1 + 1\<rparr>)"
      using h t' by simp
    finally show "preFixedUpdate H c =
        preFixedUpdate H
          ((preFixedUpdate H (c\<lparr>cn_queue := q1\<rparr>))
             \<lparr>cn_queue := q2, cn_world := w2,
              cn_dispatched := cn_dispatched (preFixedUpdate H (c\<lparr>cn_queue := q1\<rparr>)) @ [(m, d)],
              cn_errors := cn_errors (preFixedUpdate H (c\<lparr>cn_queue := q1\<rparr>)) + 1\<rparr>)"
      unfolding e by (simp add: preFixedUpdate_def flush_def)
  qed
  from 1 2 3 4 client_run_quiet[of steps rd H P c] client_run_head[of rd H P steps c]
  show ?thesis by blast
qed

theorem C5_packet_queue_witness:
  "onPacket ex_rd 4 ex_client =
     Normal (ex_client\<lparr>cn_queue := cn_queue ex_client @ [(''onEntityAdded'', 4)]\<rparr>) \<and>
   onPacket ex_rd 0 ex_client = Abrupt ex_client \<and>
   preFixedUpdate ex_handlers ex_client =
     \<lparr>cn_queue = [], cn_world = [1, 0, 2],
      cn_dispatched = [(''onEntityAdded'', 1), (''onEntityModified'', 13), (''onEntityModified'', 2)],
      cn_errors = 2\<rparr> \<and>
   preFixedUpdate ex_handlers ex_client =
     preFixedUpdate ex_handlers
       \<lparr>cn_queue = [(''onPong'', 5), (''ids'', 9), (''onEntityModified'', 2)], cn_world = [1, 0],
        cn_dispatched = [(''onEntityAdded'', 1), (''onEntityModified'', 13)], cn_errors = 1\<rparr> \<and>
   client_run ex_rd ex_handlers (\<lambda>p w. w @ [100])
       [Message 4, Phase PhFixedUpdate, Message 0, Phase PhUpdate, Message 6] ex_client =
     ex_client\<lparr>cn_queue := cn_queue ex_client @ [(''onEntityAdded'', 4), (''onEntityAdded'', 6)],
                cn_world := [100, 100]\<rparr> \<and>
   cn_dispatched (client_run ex_rd ex_handlers (\<lambda>p w. w @ [100])
       (([Message 4] @ frame_steps 2 @ [Message 0, Message 6]) @ [FrameHead]) ex_client) =
     [(''onEntityAdded'', 1), (''onEntityModified'', 13), (''onEntityModified'', 2),
      (''onEntityAdded'', 4), (''onEntityAdded'', 6)]"
proof -
  let ?P = "\<lambda>(p::phase) (w::nat list). w @ [100]"
  let ?steps = "[Message 4, Phase PhFixedUpdate, Message 0, Phase PhUpdate, Message 6]"
  let ?q1 = "[(''onEntityAdded'', 1::nat)]"
  let ?q2 = "[(''onPong'', 5), (''ids'', 9), (''onEntityModified'', 2::nat)]"
  let ?h = "\<lambda>d w. if d = (13::nat) then Abrupt (w @ [0::nat]) else Normal (w @ [d])"
  have a: "ex_rd 4 = Some (''onEntityAdded'', 4)" and b: "ex_rd 0 = None"
    by (simp_all add: ex_rd_def)
  have h: "handled ex_handlers (cn_queue ex_client) =
     [(''onEntityAdded'', 1), (''onEntityModified'', 13), (''onEntityModified'', 2)]"
    by (simp add: handled_def ex_handlers_def ex_client_def)
  have s: "spec_drain ex_handlers (cn_world ex_client, cn_errors ex_client) (cn_queue ex_client) =
     ([1, 0, 2], 2)"
    by (simp add: spec_drain_def spec_dispatch_def ex_handlers_def ex_client_def)
  note T = C5_packet_queue[where c = ex_client and H = ex_handlers and rd = ex_rd]
  have 1: "onPacket ex_rd 4 ex_client =
     Normal (ex_client\<lparr>cn_queue := cn_queue ex_client @ [(''onEntityAdded'', 4)]\<rparr>)"
    using T[where frame = 4 and m = "''onEntityAdded''" and d = 4] a by simp
  have 2: "onPacket ex_rd 0 ex_client = Abrupt ex_client"
    using T[where frame = 0] b by simp
  have 3: "preFixedUpdate ex_handlers ex_client =
     \<lparr>cn_queue = [], cn_world = [1, 0, 2],
      cn_dispatched = [(''onEntityAdded'', 1), (''onEntityModified'', 13), (''onEntityModified'', 2)],
      cn_errors = 2\<rparr>"
    using T[where frame = 0] h s by (simp add: ex_client_def)
  have f1: "preFixedUpdate ex_handlers (ex_client\<lparr>cn_queue := ?q1\<rparr>) =
      \<lparr>cn_queue = [], cn_world = [1], cn_dispatched = [(''onEntityAdded'', 1)], cn_errors = 0\<rparr>"
    by (simp add: preFixedUpdate_def flush_def ex_handlers_def ex_client_def)
  have pre: "cn_queue ex_client = ?q1 @ (''onEntityModified'', 13) # ?q2"
    by (simp add: ex_client_def)
  have hm: "ex_handlers ''onEntityModified'' = Handler ?h" by (simp add: ex_handlers_def)
  have ab: "?h 13 (cn_world (preFixedUpdate ex_handlers (ex_client\<lparr>cn_queue := ?q1\<rparr>))) =
      Abrupt [1, 0]"
    unfolding f1 by simp
  have "preFixedUpdate ex_handlers ex_client =
     preFixedUpdate ex_handlers
       ((preFixedUpdate ex_handlers (ex_client\<lparr>cn_queue := ?q1\<rparr>))
          \<lparr>cn_queue := ?q2, cn_world := [1, 0],
           cn_dispatched := cn_dispatched (preFixedUpdate ex_handlers (ex_client\<lparr>cn_queue := ?q1\<rparr>))
              @ [(''onEntityModified'', 13)],
           cn_errors := cn_errors (preFixedUpdate ex_handlers (ex_client\<lparr>cn_queue := ?q1\<rparr>)) + 1\<rparr>)"
    using T[where frame = 0 and m = "''onEntityModified''" and d = 13 and ?q1.0 = ?q1
         and ?q2.0 = ?q2 and h = ?h and ?w2.0 = "[1, 0]"] pre hm ab
    by blast
  then have 4: "preFixedUpdate ex_handlers ex_client =
     preFixedUpdate ex_handlers
       \<lparr>cn_queue = ?q2, cn_world = [1, 0],
        cn_dispatched = [(''onEntityAdded'', 1), (''onEntityModified'', 13)], cn_errors = 1\<rparr>"
    unfolding f1 by simp
  have n: "FrameHead \<notin> set ?steps" by simp
  have ar: "arrived ex_rd ?steps = [(''onEntityAdded'', 4), (''onEntityAdded'', 6)]"
    by (simp add: ex_rd_def)
  have ph: "run_phases ?P (phases_of ?steps) (cn_world ex_client) = [100, 100]"
    by (simp add: run_phases_def ex_client_def)
  have 5: "client_run ex_rd ex_handlers ?P ?steps ex_client =
     ex_client\<lparr>cn_queue := cn_queue ex_client @ [(''onEntityAdded'', 4), (''onEntityAdded'', 6)],
                cn_world := [100, 100]\<rparr>"
    using T[where frame = 0 and steps = ?steps and P = ?P] n ar ph
    by (intro client_network.equality) simp_all
  have ar2: "arrived ex_rd ([Message 4] @ frame_steps 2 @ [Message 0, Message 6]) =
      [(''onEntityAdded'', 4), (''onEntityAdded'', 6)]"
    by (simp add: ex_rd_def frame_steps_def numeral_2_eq_2)
  have 6: "cn_dispatched (client_run ex_rd ex_handlers ?P
       (([Message 4] @ frame_steps 2 @ [Message 0, Message 6]) @ [FrameHead]) ex_client) =
     [(''onEntityAdded'', 1), (''onEntityModified'', 13), (''onEntityModified'', 2),
      (''onEntityAdded'', 4), (''onEntityAdded'', 6)]"
    using T[where frame = 0 and steps = "[Message 4] @ frame_steps 2 @ [Message 0, Message 6]"
        and P = ?P]
    unfolding ar2 by (simp add: handled_def ex_handlers_def ex_client_def)
  from 1 2 3 4 5 6 show ?thesis by blast
qed

subsection \<open>C6: slipping on a steep slope\<close>

text \<open>
  C6.  In a physics step whose ground sweep hits a surface with more than 60 degrees
  between its normal and straight up, the step ends ungrounded and slipping, with the
  ground normal reset to straight up and the ground angle to 0.  Whenever the step ends
  slipping, the capsule's vertical velocity at the end of the step is its vertical
  velocity at the start minus 0.5.
\<close>

theorem C6_steep_slope:
  "(in_sweepNormal i = Some nrm \<and> angleTo UP nrm * RAD2DEG > 60 \<longrightarrow>
      \<not> pl_grounded (PlayerLocal_fixedUpdate i dt p) \<and>
      pl_slipping (PlayerLocal_fixedUpdate i dt p) \<and>
      pl_groundNormal (PlayerLocal_fixedUpdate i dt p) = UP \<and>
      pl_groundAngle (PlayerLocal_fixedUpdate i dt p) = 0) \<and>
   (pl_slipping (PlayerLocal_fixedUpdate i dt p) \<longrightarrow>
      vy (pl_velocity (PlayerLocal_fixedUpdate i dt p)) = vy (pl_velocity p) - 0.5)"
proof -
  let ?g = "steep_slope (update_grounded i (track_platform i p))"
  let ?m = "apply_gravity i (jump_fall dt (swap_material ?g))"
  let ?s = "shape_velocity dt ?m"
  have step: "PlayerLocal_fixedUpdate i dt p = apply_jump i (move_force i ?s)"
    by (simp add: PlayerLocal_fixedUpdate_def)
  have m: "flags ?m = flags ?g" "pl_velocity ?m = pl_velocity p"
    using middle_keeps[of i dt ?g] ground_velocity[of i p] by simp_all
  have slip: "vy (pl_velocity (PlayerLocal_fixedUpdate i dt p)) = vy (pl_velocity p) - 0.5 \<and>
              flags (PlayerLocal_fixedUpdate i dt p) = flags ?g"
    if "pl_slipping ?g"
  proof -
    from slipping_only_when_steep[OF that] that m(1)
    have q: "pl_slipping ?m" "\<not> pl_grounded ?m" "pl_groundNormal ?m = UP" "\<not> pl_justLeftGround ?m"
      by (simp_all add: flags_def)
    from shape_slipping[OF q, of dt] m have s: "vy (pl_velocity ?s) = vy (pl_velocity p) - 0.5"
      "flags ?s = flags ?g" by simp_all
    from s(2) q(2) m(1) have "\<not> pl_grounded ?s" by (simp add: flags_def)
    from tail_keeps[OF this, of i] s step show ?thesis by simp
  qed
  have "pl_slipping ?m = pl_slipping ?g" using m(1) by (simp add: flags_def)
  then have same_slip: "pl_slipping (PlayerLocal_fixedUpdate i dt p) = pl_slipping ?g"
    by (simp add: step slipping_kept)
  have first: "\<not> pl_grounded (PlayerLocal_fixedUpdate i dt p) \<and>
      pl_slipping (PlayerLocal_fixedUpdate i dt p) \<and>
      pl_groundNormal (PlayerLocal_fixedUpdate i dt p) = UP \<and>
      pl_groundAngle (PlayerLocal_fixedUpdate i dt p) = 0"
    if h: "in_sweepNormal i = Some nrm" "angleTo UP nrm * RAD2DEG > 60"
  proof -
    from ground_steep[OF h, of p] have g: "pl_slipping ?g" "flags ?g = (False, True, UP, 0, False)"
      by (simp_all add: flags_def)
    from slip[OF g(1)] g(2) show ?thesis by (simp add: flags_def)
  qed
  from first slip same_slip show ?thesis by blast
qed

theorem C6_steep_slope_witness:
  "\<not> pl_grounded (PlayerLocal_fixedUpdate ex_wall (1 / 50) ex_player) \<and>
   pl_slipping (PlayerLocal_fixedUpdate ex_wall (1 / 50) ex_player) \<and>
   pl_groundNormal (PlayerLocal_fixedUpdate ex_wall (1 / 50) ex_player) = UP \<and>
   pl_groundAngle (PlayerLocal_fixedUpdate ex_wall (1 / 50) ex_player) = 0 \<and>
   vy (pl_velocity (PlayerLocal_fixedUpdate ex_wall (1 / 50) ex_player)) = 3 / 2"
proof -
  have n: "in_sweepNormal ex_wall = Some (Vec3 1 0 0)" by (simp add: ex_wall_def)
  have ang: "angleTo UP (Vec3 1 0 0) = pi / 2"
    by (simp add: angleTo_def UP_def dot_def clamp_def Let_def)
  have "angleTo UP (Vec3 1 0 0) * RAD2DEG = 90"
    unfolding ang RAD2DEG_def by simp
  then have a: "angleTo UP (Vec3 1 0 0) * RAD2DEG > 60" by simp
  have v: "vy (pl_velocity ex_player) = 2" by (simp add: ex_player_def)
  from C6_steep_slope[of ex_wall "Vec3 1 0 0" "1 / 50" ex_player] n a v show ?thesis by simp
qed

subsection \<open>C7: scaling an app by the pointer\<close>

text \<open>
  C7, as stated, fails.  An app whose data carries the scale (1, 1, 20), taken for scaling
  by the local client, is built with that scale on its root.  A \<open>handleScale\<close> step without
  Shift leaves the z axis at 20, outside [0.1, 10]: that branch writes and clamps x and
  y only.
\<close>

theorem C7_counterexample:
  "(case ex_built ex_scaling_data ex_world of
      (res, a, w) \<Rightarrow>
        res = Finished \<and> app_mode a = Some SCALING \<and>
        (case handleScale ex_still (1 / 50) a of
           Normal a' \<Rightarrow> map_option node_scale (app_root a') = Some (Vec3 1 1 20) \<and> \<not> in_range 20
         | Abrupt a' \<Rightarrow> False))"
  by (simp add: ex_defs ex_scaling_data_def ex_still_def handleScale_def clamp_def in_range_def Let_def)

text \<open>
  C7, amended.  For an app that holds its control binding and a root (as in SCALING mode
  on the mover's client), a \<open>handleScale\<close> step returns, and changes the root's scale only.
  With ShiftLeft held, the same amount \<open>- pointer.delta.y * delta\<close> is added to all three
  axes and all three are clamped to [0.1, 10].  Without it, x moves by
  \<open>pointer.delta.x * delta\<close> and y by \<open>- pointer.delta.y * delta\<close>, both are clamped to
  [0.1, 10], and z is left as it was; so z is in [0.1, 10] after the step if it was before.
\<close>

theorem C7_handleScale:
  assumes "app_control a = Some b" and "app_root a = Some r"
  shows "\<exists>s'. handleScale c dt a = Normal (a\<lparr>app_root := Some (r\<lparr>node_scale := s'\<rparr>)\<rparr>) \<and>
           (ctl_ShiftLeft c \<longrightarrow>
              s' = clampScalar (addScalar (node_scale r) (- ctl_pointer_dy c * dt)) 0.1 10 \<and>
              in_range (vx s') \<and> in_range (vy s') \<and> in_range (vz s')) \<and>
           (\<not> ctl_ShiftLeft c \<longrightarrow>
              vx s' = clamp (vx (node_scale r) + ctl_pointer_dx c * dt) 0.1 10 \<and>
              vy s' = clamp (vy (node_scale r) - ctl_pointer_dy c * dt) 0.1 10 \<and>
              vz s' = vz (node_scale r) \<and>
              in_range (vx s') \<and> in_range (vy s') \<and>
              (in_range (vz (node_scale r)) \<longrightarrow> in_range (vz s')))"
proof (cases "ctl_ShiftLeft c")
  case True
  let ?s = "clampScalar (addScalar (node_scale r) (- ctl_pointer_dy c * dt)) 0.1 10"
  have "handleScale c dt a = Normal (a\<lparr>app_root := Some (r\<lparr>node_scale := ?s\<rparr>)\<rparr>)"
    using assms True by (simp add: handleScale_def Let_def)
  moreover have "in_range (vx ?s) \<and> in_range (vy ?s) \<and> in_range (vz ?s)"
    by (simp add: clampScalar_def in_range_def clamp_def)
  ultimately show ?thesis using True by blast
next
  case False
  let ?s = "Vec3 (clamp (vx (node_scale r) + ctl_pointer_dx c * dt) 0.1 10)
                 (clamp (vy (node_scale r) - ctl_pointer_dy c * dt) 0.1 10)
                 (vz (node_scale r))"
  have "handleScale c dt a = Normal (a\<lparr>app_root := Some (r\<lparr>node_scale := ?s\<rparr>)\<rparr>)"
    using assms False by (simp add: handleScale_def Let_def)
  moreover have "in_range (vx ?s) \<and> in_range (vy ?s)"
    by (simp add: in_range_def clamp_def)
  ultimately show ?thesis using False by (intro exI[of _ ?s]) simp
qed

theorem C7_handleScale_witness:
  "(\<exists>s'. handleScale ex_shift_drag (1 / 50) (fst (snd (ex_built ex_scaling_data ex_world))) =
            Normal ((fst (snd (ex_built ex_scaling_data ex_world)))
                      \<lparr>app_root := Some ((the (app_root (fst (snd (ex_built ex_scaling_data ex_world)))))
                                          \<lparr>node_scale := s'\<rparr>)\<rparr>) \<and>
          s' = Vec3 3 3 10)"
proof -
  let ?a = "fst (snd (ex_built ex_scaling_data ex_world))"
  have c: "app_control ?a = Some ''ENTITY''"
    by (simp add: ex_defs ex_scaling_data_def)
  obtain r where r: "app_root ?a = Some r" and sc: "node_scale r = Vec3 1 1 20"
    by (simp add: ex_defs ex_scaling_data_def)
  from C7_handleScale[OF c r, of ex_shift_drag "1 / 50"] show ?thesis
    by (simp add: r sc ex_shift_drag_def clampScalar_def addScalar_def clamp_def)
qed

subsection \<open>C8: dropping a file above the size cap\<close>

text \<open>
  C8.  On an authoring client (the local user has the admin or the builder role), when
  the dropped file is larger than \<open>MAX_UPLOAD_SIZE\<close> megabytes, \<open>onDrop\<close> adds one system
  chat message (no sender, not broadcast) whose body names the limit, logs an error, and
  returns: it starts neither \<open>addModel\<close> nor \<open>addAvatar\<close>, and the rest of the world (the
  blueprint registry, the entity store, the packets sent) is as before.
\<close>

theorem C8_oversize_drop:
  assumes "hasRole (env_roles env) [''admin'', ''builder'']"
    and "dropped_file dt = Some f"
    and "env_MAX_UPLOAD_SIZE env = Some m"
    and "int (file_size f) > m * 1024 * 1024"
  shows "onDrop env dt w =
           ([], w\<lparr>w_chat := drop (length (w_chat w) + 1 - 50) (w_chat w @ [size_notice env]),
                  w_console := w_console w @ [''File too large'']\<rparr>) \<and>
         last (drop (length (w_chat w) + 1 - 50) (w_chat w @ [size_notice env])) = size_notice env \<and>
         msg_body (size_notice env) = ''File size too large (>'' @ show_int m @ ''mb)'' \<and>
         msg_from (size_notice env) = None \<and> msg_fromId (size_notice env) = None"
proof -
  have "too_large env f" using assms(3,4) by (simp add: too_large_def)
  then have "onDrop env dt w =
           ([], w\<lparr>w_chat := drop (length (w_chat w) + 1 - 50) (w_chat w @ [size_notice env]),
                  w_console := w_console w @ [''File too large'']\<rparr>)"
    using assms(1,2) by (simp add: onDrop_def chat_add_def console_error_def Let_def)
  moreover have "last (drop (length (w_chat w) + 1 - 50) (w_chat w @ [size_notice env])) = size_notice env"
    by (simp add: last_drop)
  ultimately show ?thesis using assms(3) by (simp add: size_notice_def)
qed

theorem C8_oversize_drop_witness:
  "onDrop ex_drop_env (ex_drop ex_big_file) ex_world =
     ([], ex_world\<lparr>w_chat := [size_notice ex_drop_env], w_console := [''File too large'']\<rparr>) \<and>
   msg_body (size_notice ex_drop_env) = ''File size too large (>100mb)'' \<and>
   onDrop ex_drop_env (ex_drop (ex_big_file\<lparr>file_size := 1024\<rparr>)) ex_world =
     ([AddModel (ex_big_file\<lparr>file_size := 1024\<rparr>)], ex_world)"
proof -
  have r: "hasRole (env_roles ex_drop_env) [''admin'', ''builder'']"
    by (simp add: hasRole_def ex_drop_env_def)
  have d: "dropped_file (ex_drop ex_big_file) = Some ex_big_file"
    by (simp add: dropped_file_def ex_drop_def)
  have m: "env_MAX_UPLOAD_SIZE ex_drop_env = Some 100" by (simp add: ex_drop_env_def)
  have s: "int (file_size ex_big_file) > 100 * 1024 * 1024" by (simp add: ex_big_file_def)
  have small: "onDrop ex_drop_env (ex_drop (ex_big_file\<lparr>file_size := 1024\<rparr>)) ex_world =
     ([AddModel (ex_big_file\<lparr>file_size := 1024\<rparr>)], ex_world)"
    by (simp add: onDrop_def hasRole_def ex_drop_env_def dropped_file_def ex_drop_def too_large_def
        ex_big_file_def extension_def toLowerCase_def)
  from C8_oversize_drop[OF r d m s, of ex_world] small show ?thesis
    by (simp add: ex_world_def show_int_def show_nat_100 digit_def)
qed

subsection \<open>C9: which updates rebuild\<close>

text \<open>
  C9 holds once a build has installed the interpolators (\<open>App_modify_transform_only\<close>,
  \<open>App_modify_rebuilds\<close>), and the code breaks it before that.  \<open>this.networkPos\<close> is
  assigned near the end of the first completed build.  While that build still waits for
  its model, the packet that places the app (mover cleared, position, quaternion, scale,
  state) makes \<open>modify\<close> throw at \<open>this.networkPos.pushArray\<close>: the data contains \<open>mover\<close>,
  \<open>transformMode\<close> and \<open>state\<close>, yet no build is started, and the quaternion and the state
  are not stored.
\<close>

theorem C9_modify_before_first_build:
  "(case new_App ex_data ex_world of
      (res, a, w) \<Rightarrow>
        res \<noteq> Finished \<and> app_networkPos a = None \<and> wants_rebuild ex_commit \<and>
        (case App_modify ex_commit a w of
           Abrupt (started, a', w') \<Rightarrow>
             started = None \<and> app_n a' = app_n a \<and> w' = w \<and>
             d_position (app_data a') = Vec3 1 2 3 \<and>
             d_quaternion (app_data a') = d_quaternion (app_data a) \<and>
             d_state (app_data a') = d_state (app_data a)
         | Normal x \<Rightarrow> False))"
  by (simp add: ex_defs ex_commit_def wants_rebuild_def App_modify_def modify_position_def
      modify_keys_def Let_def)

subsection \<open>C10: destroy is idempotent\<close>

text \<open>
  C10.  For an App and for a PlayerRemote: the first \<open>destroy\<close> marks the entity dead,
  unbuilds it (the App's root is deactivated, its listeners, control binding and abort
  controller are dropped; the player's base is deactivated and \<open>leave\<close> is emitted), takes
  it out of the hot set and out of the entity store, and sends one \<open>entityRemoved\<close> packet
  when called with \<open>local = true\<close> and none otherwise.  A later \<open>destroy\<close>, with either
  flag, changes neither the entity nor the world.
\<close>

theorem C10_destroy_idempotent:
  "(\<not> app_dead a \<and> App_destroy local a w = (a', w') \<longrightarrow>
      app_dead a' \<and> app_root a' = map_option (\<lambda>r. r\<lparr>node_active := False\<rparr>) (app_root a) \<and>
      app_listeners a' = Map.empty \<and> app_control a' = None \<and> app_abortController a' = None \<and>
      d_id (app_data a) \<notin> w_hot w' \<and> w_items w' = w_items w - {d_id (app_data a)} \<and>
      w_sent w' = w_sent w @ (if local then [EntityRemoved (d_id (app_data a))] else [])) \<and>
   (App_destroy local a w = (a', w') \<longrightarrow> App_destroy local2 a' w' = (a', w')) \<and>
   (\<not> pr_dead p \<and> PlayerRemote_destroy local p v = (p', v') \<longrightarrow>
      pr_dead p' \<and> \<not> pr_baseActive p' \<and> pr_id p \<notin> w_hot v' \<and>
      w_items v' = w_items v - {pr_id p} \<and>
      w_emitted v' = w_emitted v @ [(''leave'', pr_id p)] \<and>
      w_sent v' = w_sent v @ (if local then [EntityRemoved (pr_id p)] else [])) \<and>
   (PlayerRemote_destroy local p v = (p', v') \<longrightarrow> PlayerRemote_destroy local2 p' v' = (p', v'))"
proof -
  have 1: "App_destroy local a w = (a', w') \<longrightarrow> App_destroy local2 a' w' = (a', w')"
    using App_destroy_makes_dead[of local a w a' w'] by (auto simp: App_destroy_def)
  have 2: "PlayerRemote_destroy local p v = (p', v') \<longrightarrow> PlayerRemote_destroy local2 p' v' = (p', v')"
    using PlayerRemote_destroy_makes_dead[of local p v p' v'] by (auto simp: PlayerRemote_destroy_def)
  from 1 2 App_destroy_live[of a local w a' w'] PlayerRemote_destroy_live[of p local v p' v']
  show ?thesis by blast
qed

theorem C10_destroy_idempotent_witness:
  "(case App_destroy True (fst (snd (ex_built ex_data ex_world))) (snd (snd (ex_built ex_data ex_world))) of
      (a', w') \<Rightarrow>
        app_dead a' \<and> map_option node_active (app_root a') = Some False \<and>
        w_items w' = {} \<and> w_sent w' = [EntityRemoved ''app1''] \<and>
        App_destroy True a' w' = (a', w')) \<and>
   (case PlayerRemote_destroy True ex_remote ex_remote_world of
      (p', v') \<Rightarrow>
        pr_dead p' \<and> w_items v' = {''app1''} \<and> w_sent v' = [EntityRemoved ''player2''] \<and>
        PlayerRemote_destroy True p' v' = (p', v'))"
proof -
  let ?a = "fst (snd (ex_built ex_data ex_world))"
  let ?w = "snd (snd (ex_built ex_data ex_world))"
  obtain a' w' where d: "App_destroy True ?a ?w = (a', w')" by (cases "App_destroy True ?a ?w")
  obtain p' v' where e: "PlayerRemote_destroy True ex_remote ex_remote_world = (p', v')"
    by (cases "PlayerRemote_destroy True ex_remote ex_remote_world")
  have l: "\<not> app_dead ?a" "d_id (app_data ?a) = ''app1''" "w_items ?w = {''app1''}" "w_sent ?w = []"
    "map_option node_active (app_root ?a) = Some True"
    by (simp_all add: ex_defs)
  have m: "\<not> pr_dead ex_remote" "pr_id ex_remote = ''player2''"
    "w_items ex_remote_world = {''app1'', ''player2''}" "w_sent ex_remote_world = []"
    by (simp_all add: ex_remote_def ex_remote_world_def ex_world_def)
  from C10_destroy_idempotent[of ?a True ?w a' w' True ex_remote ex_remote_world p' v'] d e l m
  have "app_dead a' \<and> map_option node_active (app_root a') = Some False \<and>
        w_items w' = {} \<and> w_sent w' = [EntityRemoved ''app1''] \<and>
        App_destroy True a' w' = (a', w')"
    and "pr_dead p' \<and> w_items v' = {''app1''} \<and> w_sent v' = [EntityRemoved ''player2''] \<and>
        PlayerRemote_destroy True p' v' = (p', v')"
    by (auto simp: option.map_comp comp_def)
  then show ?thesis by (simp add: d e)
qed

end
